theory Spec2Isabelle
  imports Main "HOL-Library.Multiset" "HOL-Library.Word" "HOL-Library.Char_ord" "HOL-Library.List_Lexorder"
begin

section \<open>Utilities: merging arrays and the stable sort by key\<close>

text \<open>
  \<^verbatim>\<open>into(target, ...rest)\<close> with an array target pushes the elements of the argument
  array onto the target in batches of \<^verbatim>\<open>MAX_ARRAY_PUSH\<close> elements.  The counter
  \<^verbatim>\<open>i\<close> starts at \<^verbatim>\<open>Math.ceil(arr.length / MAX_ARRAY_PUSH)\<close> and the loop
  \<^verbatim>\<open>while (i-- > 0)\<close> pushes \<^verbatim>\<open>arr.slice(begin, begin + MAX_ARRAY_PUSH)\<close>.
\<close>

definition MAX_ARRAY_PUSH :: nat where
  "MAX_ARRAY_PUSH = 50000"

fun into_loop :: "nat \<Rightarrow> nat \<Rightarrow> 'a list \<Rightarrow> 'a list \<Rightarrow> 'a list" where
  "into_loop 0 begin acc arr = acc"
| "into_loop (Suc i) begin acc arr =
     into_loop i (begin + MAX_ARRAY_PUSH) (acc @ take MAX_ARRAY_PUSH (drop begin arr)) arr"

definition into :: "'a list \<Rightarrow> 'a list \<Rightarrow> 'a list" where
  "into target arr =
     into_loop ((length arr + MAX_ARRAY_PUSH - 1) div MAX_ARRAY_PUSH) 0 target arr"

text \<open>
  \<^verbatim>\<open>Array.prototype.sort\<close> with a comparator is a platform function.  ECMAScript
  requires it to be stable, and to order the array whenever the comparator is consistent;
  the model is the stable insertion sort: an element moves past a later neighbour only
  when the comparator returns a positive number for the pair.
\<close>

fun native_insert :: "('p \<Rightarrow> 'p \<Rightarrow> int) \<Rightarrow> 'p \<Rightarrow> 'p list \<Rightarrow> 'p list" where
  "native_insert c x [] = [x]"
| "native_insert c x (y # ys) = (if c x y > 0 then y # native_insert c x ys else x # y # ys)"

fun native_sort :: "('p \<Rightarrow> 'p \<Rightarrow> int) \<Rightarrow> 'p list \<Rightarrow> 'p list" where
  "native_sort c [] = []"
| "native_sort c (x # xs) = native_insert c x (native_sort c xs)"

text \<open>
  \<^verbatim>\<open>sortBy(collection, keyFn, comparator)\<close>.  A key that is \<^verbatim>\<open>null\<close> or
  \<^verbatim>\<open>undefined\<close> (\<^verbatim>\<open>isNil\<close>) is \<open>None\<close>.  The loop pushes an element with a nil key
  onto \<^verbatim>\<open>result\<close> and a pair \<^verbatim>\<open>[key, obj]\<close> onto \<^verbatim>\<open>sorted\<close> otherwise; the pairs are
  sorted on their keys and merged \<^emph>\<open>into\<close> \<^verbatim>\<open>result\<close>, that is, behind the elements
  already there.
\<close>

fun sortBy_loop ::
  "('a \<Rightarrow> nat \<Rightarrow> 'k option) \<Rightarrow> 'a list \<Rightarrow> nat \<Rightarrow> ('k \<times> 'a) list \<Rightarrow> 'a list
     \<Rightarrow> ('k \<times> 'a) list \<times> 'a list" where
  "sortBy_loop keyFn [] i srtd result = (srtd, result)"
| "sortBy_loop keyFn (obj # rest) i srtd result =
     (case keyFn obj i of
        None \<Rightarrow> sortBy_loop keyFn rest (i + 1) srtd (result @ [obj])
      | Some key \<Rightarrow> sortBy_loop keyFn rest (i + 1) (srtd @ [(key, obj)]) result)"

definition sortBy ::
  "'a list \<Rightarrow> ('a \<Rightarrow> nat \<Rightarrow> 'k option) \<Rightarrow> ('k \<Rightarrow> 'k \<Rightarrow> int) \<Rightarrow> 'a list" where
  "sortBy collection keyFn comparator =
     (if collection = [] then collection
      else (case sortBy_loop keyFn collection 0 [] [] of
              (srtd, result) \<Rightarrow>
                into result (map snd (native_sort (\<lambda>a b. comparator (fst a) (fst b)) srtd))))"

text \<open>
  Vocabulary of the statements about \<open>sortBy\<close>: the elements of the input paired with
  their keys, in input order; a consistent comparator (total and transitive, as ECMAScript
  asks of the argument of \<^verbatim>\<open>sort\<close>); keys the comparator ranks equal.
\<close>

definition keyed :: "('a \<Rightarrow> nat \<Rightarrow> 'k option) \<Rightarrow> 'a list \<Rightarrow> ('k option \<times> 'a) list" where
  "keyed keyFn xs = map (\<lambda>(x, i). (keyFn x i, x)) (zip xs [0 ..< length xs])"

definition nil_keyed :: "('a \<Rightarrow> nat \<Rightarrow> 'k option) \<Rightarrow> 'a list \<Rightarrow> 'a list" where
  "nil_keyed keyFn xs = map snd (filter (\<lambda>p. fst p = None) (keyed keyFn xs))"

definition with_key :: "('a \<Rightarrow> nat \<Rightarrow> 'k option) \<Rightarrow> 'a list \<Rightarrow> ('k \<times> 'a) list" where
  "with_key keyFn xs =
     map (\<lambda>p. (the (fst p), snd p)) (filter (\<lambda>p. fst p \<noteq> None) (keyed keyFn xs))"

definition consistent_comparator :: "('k \<Rightarrow> 'k \<Rightarrow> int) \<Rightarrow> bool" where
  "consistent_comparator c \<longleftrightarrow>
     (\<forall>a b. c a b \<le> 0 \<or> c b a \<le> 0) \<and> (\<forall>a b d. c a b \<le> 0 \<and> c b d \<le> 0 \<longrightarrow> c a d \<le> 0)"

definition same_rank :: "('k \<Rightarrow> 'k \<Rightarrow> int) \<Rightarrow> 'k \<Rightarrow> 'k \<Rightarrow> bool" where
  "same_rank c a b \<longleftrightarrow> c a b \<le> 0 \<and> c b a \<le> 0"

text \<open>
  A concrete run: integers ordered as \<^verbatim>\<open>compare\<close> orders numbers, and a key function
  that gives the element \<open>0\<close> no key.
\<close>

definition compare_numbers :: "int \<Rightarrow> int \<Rightarrow> int" where
  "compare_numbers a b = (if a < b then - 1 else if a > b then 1 else 0)"

definition key_unless_zero :: "int \<Rightarrow> nat \<Rightarrow> int option" where
  "key_unless_zero x i = (if x = 0 then None else Some x)"

section \<open>Properties of the utilities\<close>

lemma into_loop_append:
  "into_loop i b acc arr = acc @ take (i * MAX_ARRAY_PUSH) (drop b arr)"
proof (induction i arbitrary: b acc)
  case 0
  show ?case by simp
next
  case (Suc i)
  have "take MAX_ARRAY_PUSH (drop b arr) @ take (i * MAX_ARRAY_PUSH) (drop (b + MAX_ARRAY_PUSH) arr)
        = take (MAX_ARRAY_PUSH + i * MAX_ARRAY_PUSH) (drop b arr)"
    by (simp add: take_add add.commute)
  with Suc show ?case by simp
qed

lemma ceil_div_mult_ge:
  assumes "0 < (m::nat)"
  shows "n \<le> ((n + m - 1) div m) * m"
proof -
  have "(n + m - 1) div m * m + (n + m - 1) mod m = n + m - 1"
    by (rule div_mult_mod_eq)
  moreover have "(n + m - 1) mod m < m"
    using assms by simp
  ultimately show ?thesis
    using assms by linarith
qed

lemma into_append: "into target arr = target @ arr"
proof -
  have "0 < MAX_ARRAY_PUSH"
    by (simp add: MAX_ARRAY_PUSH_def)
  then have "length arr \<le> ((length arr + MAX_ARRAY_PUSH - 1) div MAX_ARRAY_PUSH) * MAX_ARRAY_PUSH"
    by (rule ceil_div_mult_ge)
  then show ?thesis
    by (simp add: into_def into_loop_append)
qed

lemma sortBy_loop_acc:
  "sortBy_loop keyFn xs i srtd result =
     (srtd @ map (\<lambda>p. (the (fst p), snd p))
                 (filter (\<lambda>p. fst p \<noteq> None) (map (\<lambda>(x, j). (keyFn x j, x)) (zip xs [i ..< i + length xs]))),
      result @ map snd
                 (filter (\<lambda>p. fst p = None) (map (\<lambda>(x, j). (keyFn x j, x)) (zip xs [i ..< i + length xs]))))"
proof (induction xs arbitrary: i srtd result)
  case Nil
  show ?case by simp
next
  case (Cons x xs)
  have up: "[i ..< i + length (x # xs)] = i # [i + 1 ..< (i + 1) + length xs]"
    by (simp add: upt_conv_Cons del: upt_Suc)
  show ?case
    unfolding up by (cases "keyFn x i") (simp_all add: Cons.IH)
qed

lemma sortBy_loop_eq:
  "sortBy_loop keyFn xs 0 [] [] = (with_key keyFn xs, nil_keyed keyFn xs)"
  by (simp add: sortBy_loop_acc with_key_def nil_keyed_def keyed_def)

lemma mset_native_insert: "mset (native_insert c x ys) = add_mset x (mset ys)"
  by (induction ys) auto

lemma mset_native_sort: "mset (native_sort c xs) = mset xs"
  by (induction xs) (auto simp: mset_native_insert)

lemma set_native_insert: "set (native_insert c x ys) = insert x (set ys)"
  by (induction ys) auto

lemma sorted_native_insert:
  assumes tot: "\<And>a b. c a b \<le> 0 \<or> c b a \<le> 0"
    and trans: "\<And>a b d. c a b \<le> 0 \<Longrightarrow> c b d \<le> 0 \<Longrightarrow> c a d \<le> 0"
    and srt: "sorted_wrt (\<lambda>a b. c a b \<le> 0) ys"
  shows "sorted_wrt (\<lambda>a b. c a b \<le> 0) (native_insert c x ys)"
  using srt
proof (induction ys)
  case Nil
  show ?case by simp
next
  case (Cons y ys)
  show ?case
  proof (cases "c x y > 0")
    case True
    then have yx: "c y x \<le> 0" using tot [of x y] by simp
    from Cons have "sorted_wrt (\<lambda>a b. c a b \<le> 0) (native_insert c x ys)"
      and "\<forall>z \<in> set ys. c y z \<le> 0" by simp_all
    with True yx show ?thesis by (simp add: set_native_insert)
  next
    case False
    then have xy: "c x y \<le> 0" by simp
    from Cons.prems have "\<forall>z \<in> set ys. c y z \<le> 0" by simp
    with xy have "\<forall>z \<in> set ys. c x z \<le> 0" using trans by blast
    with False xy Cons.prems show ?thesis by simp
  qed
qed

lemma sorted_native_sort:
  assumes "\<And>a b. c a b \<le> 0 \<or> c b a \<le> 0"
    and "\<And>a b d. c a b \<le> 0 \<Longrightarrow> c b d \<le> 0 \<Longrightarrow> c a d \<le> 0"
  shows "sorted_wrt (\<lambda>a b. c a b \<le> 0) (native_sort c xs)"
  by (induction xs) (simp_all add: sorted_native_insert assms)

lemma filter_native_insert:
  assumes "\<And>y. y \<in> set ys \<Longrightarrow> P x \<Longrightarrow> P y \<Longrightarrow> c x y \<le> 0"
  shows "filter P (native_insert c x ys) = filter P (x # ys)"
  using assms
proof (induction ys)
  case Nil
  show ?case by simp
next
  case (Cons y ys)
  have ih: "filter P (native_insert c x ys) = filter P (x # ys)"
    by (rule Cons.IH) (simp add: Cons.prems)
  show ?case
  proof (cases "c x y > 0")
    case True
    then have "\<not> (P x \<and> P y)"
      using Cons.prems [of y] by auto
    with True ih show ?thesis by auto
  next
    case False
    then show ?thesis by simp
  qed
qed

lemma stable_native_sort:
  assumes "\<And>x y. P x \<Longrightarrow> P y \<Longrightarrow> c x y \<le> 0"
  shows "filter P (native_sort c xs) = filter P xs"
proof (induction xs)
  case Nil
  show ?case by simp
next
  case (Cons x xs)
  have "filter P (native_insert c x (native_sort c xs)) = filter P (x # native_sort c xs)"
    by (rule filter_native_insert) (rule assms)
  with Cons show ?case by simp
qed

section \<open>Claims about the utilities\<close>

text \<open>
  Claim C1, as the code has it.  For every input array, key function and consistent
  comparator, \<open>sortBy\<close> returns the elements whose key is null or undefined first, in
  their input order, and behind them the other elements: a rearrangement of those
  elements that is ordered by the comparator on the keys and keeps the input order of
  every group of elements whose keys the comparator ranks equal.
\<close>

theorem sortBy_nil_keys_first_stable:
  assumes cc: "consistent_comparator c"
  shows "\<exists>S. sortBy xs keyFn c = nil_keyed keyFn xs @ map snd S
           \<and> mset S = mset (with_key keyFn xs)
           \<and> sorted_wrt (\<lambda>a b. c (fst a) (fst b) \<le> 0) S
           \<and> (\<forall>k. filter (\<lambda>p. same_rank c (fst p) k) S
                   = filter (\<lambda>p. same_rank c (fst p) k) (with_key keyFn xs))"
proof -
  let ?c = "\<lambda>a b. c (fst a) (fst b)"
  let ?S = "native_sort ?c (with_key keyFn xs)"
  from cc have ktrans: "\<And>a b d. c a b \<le> 0 \<Longrightarrow> c b d \<le> 0 \<Longrightarrow> c a d \<le> 0"
    unfolding consistent_comparator_def by blast
  from cc have tot: "\<And>a b. ?c a b \<le> 0 \<or> ?c b a \<le> 0"
    unfolding consistent_comparator_def by blast
  from ktrans have trans: "\<And>a b d. ?c a b \<le> 0 \<Longrightarrow> ?c b d \<le> 0 \<Longrightarrow> ?c a d \<le> 0"
    by blast
  have eq: "sortBy xs keyFn c = nil_keyed keyFn xs @ map snd ?S"
  proof (cases "xs = []")
    case True
    then show ?thesis
      by (simp add: sortBy_def nil_keyed_def with_key_def keyed_def)
  next
    case False
    then show ?thesis
      by (simp add: sortBy_def sortBy_loop_eq into_append)
  qed
  have perm: "mset ?S = mset (with_key keyFn xs)"
    by (rule mset_native_sort)
  have srt: "sorted_wrt (\<lambda>a b. ?c a b \<le> 0) ?S"
    by (rule sorted_native_sort) (use tot trans in blast)+
  have stable: "filter (\<lambda>p. same_rank c (fst p) k) ?S
                = filter (\<lambda>p. same_rank c (fst p) k) (with_key keyFn xs)" for k
  proof (rule stable_native_sort)
    fix x y
    assume "same_rank c (fst x) k" and "same_rank c (fst y) k"
    then have "c (fst x) k \<le> 0" and "c k (fst y) \<le> 0"
      by (simp_all add: same_rank_def)
    then show "c (fst x) (fst y) \<le> 0"
      by (rule ktrans)
  qed
  from eq perm srt stable show ?thesis by blast
qed

theorem sortBy_nil_keys_first_stable_witness:
  "consistent_comparator compare_numbers \<and>
   (\<exists>S. sortBy [2, 0, 1] key_unless_zero compare_numbers
          = nil_keyed key_unless_zero [2, 0, 1] @ map snd S
      \<and> mset S = mset (with_key key_unless_zero [2, 0, 1])
      \<and> sorted_wrt (\<lambda>a b. compare_numbers (fst a) (fst b) \<le> 0) S
      \<and> (\<forall>k. filter (\<lambda>p. same_rank compare_numbers (fst p) k) S
              = filter (\<lambda>p. same_rank compare_numbers (fst p) k)
                  (with_key key_unless_zero [2, 0, 1])))"
proof -
  have h: "consistent_comparator compare_numbers"
    by (auto simp: consistent_comparator_def compare_numbers_def)
  show ?thesis
    using h sortBy_nil_keys_first_stable [OF h, of "[2, 0, 1]" key_unless_zero] by simp
qed

text \<open>
  Claim C1, as the specification states it, puts the elements without a key behind the
  sorted portion.  On the array \<open>[2, 0, 1]\<close>, where \<open>0\<close> has no key, the code returns
  \<open>[0, 1, 2]\<close>: the element without a key is in front.
\<close>

theorem sortBy_nil_keys_last_counterexample:
  "sortBy [2, 0, 1] key_unless_zero compare_numbers = [0, 1, 2]
   \<and> nil_keyed key_unless_zero [2, 0, 1] = [0]
   \<and> sortBy [2, 0, 1] key_unless_zero compare_numbers \<noteq> [1, 2] @ nil_keyed key_unless_zero [2, 0, 1]"
  by (simp add: sortBy_def into_def MAX_ARRAY_PUSH_def key_unless_zero_def compare_numbers_def
      nil_keyed_def keyed_def upt_rec)

section \<open>Values\<close>

text \<open>
  Documents, conditions, update expressions and operator tables are JavaScript values.
  The model has the values a JSON document is made of, \<^verbatim>\<open>undefined\<close>, \<^verbatim>\<open>NaN\<close>,
  regular expressions (source and flags) and function references.  A number is an
  integer.  A function is known by its identity
  only (\<^verbatim>\<open>===\<close> on functions compares references).  An array is the list of its
  elements, a plain object the list of its own enumerable properties in the order
  \<^verbatim>\<open>Object.entries\<close> lists them.  Documents are trees: no object is shared between two
  places and none contains itself (cyclic documents have their own model further down).
  Dates, typed arrays, symbols and instances of user classes are outside the model, and so are the properties a value inherits from its prototype.
\<close>

datatype val =
    Undefined
  | Null
  | Bool bool
  | Num int
  | NaN
  | Str string
  | RegExp string string
  | Fun nat
  | Arr "val list"
  | Obj "(string \<times> val) list"

datatype error =
    InvalidOperatorName string
  | OperatorAlreadyExists string string
  | TypeError
  | CycleFound
  | CriteriaNotObject
  | UnknownTopLevelOperator string
  | UnknownOperator string
  | WhereNeedsScriptEnabled
  | WhereNeedsFunction
  | ExpectsArray string
  | IncNonNumeric
  | InvalidBitOperator
  | InvalidFilterIdentifier
  | InvalidAggregationExpression
  | OperatorNotRegistered string
  | TargetMustBeArray string
  | UndefinedVariable string
  | Thrown val
  | OutsideModel

definition isNil :: "val \<Rightarrow> bool" where
  "isNil v \<longleftrightarrow> v = Null \<or> v = Undefined"

definition isFunction :: "val \<Rightarrow> bool" where
  "isFunction v = (case v of Fun _ \<Rightarrow> True | _ \<Rightarrow> False)"

definition isArray :: "val \<Rightarrow> bool" where
  "isArray v = (case v of Arr _ \<Rightarrow> True | _ \<Rightarrow> False)"

definition isObject :: "val \<Rightarrow> bool" where
  "isObject v = (case v of Obj _ \<Rightarrow> True | _ \<Rightarrow> False)"

definition isObjectLike :: "val \<Rightarrow> bool" where
  "isObjectLike v =
     (case v of Obj _ \<Rightarrow> True | Arr _ \<Rightarrow> True | Fun _ \<Rightarrow> True | RegExp _ _ \<Rightarrow> True | _ \<Rightarrow> False)"

definition isRegExp :: "val \<Rightarrow> bool" where
  "isRegExp v = (case v of RegExp _ _ \<Rightarrow> True | _ \<Rightarrow> False)"

definition isNumber :: "val \<Rightarrow> bool" where
  "isNumber v = (case v of Num _ \<Rightarrow> True | _ \<Rightarrow> False)"

definition isString :: "val \<Rightarrow> bool" where
  "isString v = (case v of Str _ \<Rightarrow> True | _ \<Rightarrow> False)"

text \<open>JavaScript's \<^verbatim>\<open>!!v\<close>, and \<^verbatim>\<open>truthy(arg, strict)\<close> of the source.\<close>

definition js_truthy :: "val \<Rightarrow> bool" where
  "js_truthy v =
     (case v of Undefined \<Rightarrow> False | Null \<Rightarrow> False | Bool b \<Rightarrow> b | Num n \<Rightarrow> n \<noteq> 0
      | NaN \<Rightarrow> False | Str s \<Rightarrow> s \<noteq> [] | _ \<Rightarrow> True)"

definition truthy :: "val \<Rightarrow> bool \<Rightarrow> bool" where
  "truthy arg strict \<longleftrightarrow> js_truthy arg \<or> (strict \<and> arg = Str [])"

text \<open>
  What the source takes from the JavaScript platform and from its callers, and the model
  does not define: the call of a function value with a receiver, the relational operator
  \<^verbatim>\<open><\<close> on operands other than two numbers or two strings, the arithmetic of
  \<^verbatim>\<open>+\<close>, \<^verbatim>\<open>*\<close> and of the bit operators on operands that are not numbers, the
  constructor \<^verbatim>\<open>new RegExp\<close>, the source text of a function, and \<^verbatim>\<open>JSON.stringify\<close>
  of an object that has a \<^verbatim>\<open>toJSON\<close> function, and the query operators of the global
  registry other than the logical and comparison operators and \<^verbatim>\<open>$where\<close>, which are
  defined below.  They are parameters of the model.  A query operator is given by its
  meaning: from the selector and the operand to the predicate on documents (or an error).
\<close>

record platform =
  call_function :: "nat \<Rightarrow> val \<Rightarrow> error + val"
  rel_less :: "val \<Rightarrow> val \<Rightarrow> bool"
  coerced_plus :: "val \<Rightarrow> val \<Rightarrow> val"
  coerced_times :: "val \<Rightarrow> val \<Rightarrow> val"
  coerced_int32 :: "val \<Rightarrow> int"
  new_RegExp :: "val \<Rightarrow> val \<Rightarrow> error + string \<times> string"
  function_source :: "nat \<Rightarrow> string"
  function_arity :: "nat \<Rightarrow> int"
  JSON_stringify :: "val \<Rightarrow> error + string"
  other_query_ops :: "string \<rightharpoonup> (string \<Rightarrow> val \<Rightarrow> error + (val \<Rightarrow> error + bool))"

text \<open>Character classes of the regular expressions in the source.\<close>

definition is_digit :: "char \<Rightarrow> bool" where
  "is_digit c \<longleftrightarrow> (48::nat) \<le> of_char c \<and> of_char c \<le> (57::nat)"

definition is_lower :: "char \<Rightarrow> bool" where
  "is_lower c \<longleftrightarrow> (97::nat) \<le> of_char c \<and> of_char c \<le> (122::nat)"

definition is_upper :: "char \<Rightarrow> bool" where
  "is_upper c \<longleftrightarrow> (65::nat) \<le> of_char c \<and> of_char c \<le> (90::nat)"

definition is_alnum :: "char \<Rightarrow> bool" where
  "is_alnum c \<longleftrightarrow> is_lower c \<or> is_upper c \<or> is_digit c"

text \<open>\<^verbatim>\<open>OPERATOR_NAME_PATTERN = /^\$[a-zA-Z0-9_]+$/\<close>.\<close>

definition isOperator :: "string \<Rightarrow> bool" where
  "isOperator name =
     (case name of
        [] \<Rightarrow> False
      | c # rest \<Rightarrow> c = CHR ''$'' \<and> rest \<noteq> [] \<and> list_all (\<lambda>d. is_alnum d \<or> d = CHR ''_'') rest)"

section \<open>The operator registry\<close>

text \<open>
  A \<^verbatim>\<open>Context\<close> holds one table of operators per operator class; the constructor
  creates the six tables.  \<^verbatim>\<open>getOperator(type, name)\<close> of the class returns
  \<^verbatim>\<open>this.operators[type][name] || null\<close> when the class is known and \<^verbatim>\<open>null\<close> otherwise.
\<close>

type_synonym registry = "string \<rightharpoonup> (string \<rightharpoonup> val)"

definition operator_types :: "string list" where
  "operator_types = [''accumulator'', ''expression'', ''pipeline'', ''projection'', ''query'', ''window'']"

definition Context_getOperator :: "registry \<Rightarrow> string \<Rightarrow> string \<Rightarrow> val" where
  "Context_getOperator ctx type name =
     (case ctx type of
        None \<Rightarrow> Null
      | Some table \<Rightarrow>
          (case table name of
             None \<Rightarrow> Null
           | Some fn \<Rightarrow> if js_truthy fn then fn else Null))"

text \<open>
  \<^verbatim>\<open>addOperators(type, ops)\<close> stores an entry only when \<^verbatim>\<open>getOperator\<close> finds nothing
  under its name.  Writing into the table of an unknown class is a \<^verbatim>\<open>TypeError\<close>.
\<close>

fun addOperators :: "registry \<Rightarrow> string \<Rightarrow> (string \<times> val) list \<Rightarrow> error + registry" where
  "addOperators ctx type [] = Inr ctx"
| "addOperators ctx type ((name, fn) # ops) =
     (if \<not> js_truthy (Context_getOperator ctx type name)
      then (case ctx type of
              None \<Rightarrow> Inl TypeError
            | Some table \<Rightarrow> addOperators (ctx(type \<mapsto> table(name \<mapsto> fn))) type ops)
      else addOperators ctx type ops)"

definition Context_init :: "registry" where
  "Context_init = (\<lambda>type. if type \<in> set operator_types then Some Map.empty else None)"

text \<open>
  The options \<^verbatim>\<open>getOperator(type, operator, options)\<close> reads: the caller's context, if
  any, and the flag \<^verbatim>\<open>useGlobalContext\<close>.  The function looks in the caller's context
  and falls back on the global one only when the flag is set; with \<^verbatim>\<open>options\<close> null
  both are \<^verbatim>\<open>undefined\<close>.
\<close>

record lookup_options =
  opt_context :: "registry option"
  opt_useGlobalContext :: bool

definition getOperator :: "registry \<Rightarrow> string \<Rightarrow> string \<Rightarrow> lookup_options option \<Rightarrow> val" where
  "getOperator global type operator options =
     (let ctx = (case options of None \<Rightarrow> None | Some opts \<Rightarrow> opt_context opts);
          fallback = (case options of None \<Rightarrow> False | Some opts \<Rightarrow> opt_useGlobalContext opts);
          fn = (case ctx of None \<Rightarrow> Null | Some c \<Rightarrow> Context_getOperator c type operator)
      in if \<not> js_truthy fn \<and> fallback then Context_getOperator global type operator else fn)"

text \<open>
  \<^verbatim>\<open>useOperators(type, operators)\<close> on the global context.  The loop checks every entry:
  the value is a function and the name an operator name; the function currently bound,
  looked up by \<^verbatim>\<open>getOperator(type, name, null)\<close>, is absent or the very same function.
  Then the entries are added to the table of the class, for the six known classes.
\<close>

fun useOperators_check :: "registry \<Rightarrow> string \<Rightarrow> (string \<times> val) list \<Rightarrow> error + unit" where
  "useOperators_check global type [] = Inr ()"
| "useOperators_check global type ((name, fn) # rest) =
     (if \<not> (isFunction fn \<and> isOperator name) then Inl (InvalidOperatorName name)
      else let currentFn = getOperator global type name None
           in if \<not> (\<not> js_truthy currentFn \<or> fn = currentFn)
              then Inl (OperatorAlreadyExists name type)
              else useOperators_check global type rest)"

definition useOperators :: "registry \<Rightarrow> string \<Rightarrow> (string \<times> val) list \<Rightarrow> error + registry" where
  "useOperators global type operators =
     (case useOperators_check global type operators of
        Inl e \<Rightarrow> Inl e
      | Inr _ \<Rightarrow> if type \<in> set operator_types then addOperators global type operators
                 else Inr global)"

text \<open>A global registry in which the query operator \<^verbatim>\<open>$foo\<close> is bound to function 1.\<close>

definition registry_with_foo :: registry where
  "registry_with_foo = Context_init(''query'' \<mapsto> [''$foo'' \<mapsto> Fun 1])"

subsection \<open>Properties of the registry\<close>

lemma getOperator_no_options: "getOperator global type name None = Null"
  by (simp add: getOperator_def js_truthy_def)

lemma useOperators_check_ok:
  "list_all (\<lambda>(name, fn). isFunction fn \<and> isOperator name) operators
     \<Longrightarrow> useOperators_check global type operators = Inr ()"
  by (induction operators) (auto simp: getOperator_no_options js_truthy_def)

lemma addOperators_keeps_binding:
  "addOperators ctx type ops = Inr ctx' \<Longrightarrow> js_truthy (Context_getOperator ctx t n)
     \<Longrightarrow> Context_getOperator ctx' t n = Context_getOperator ctx t n"
proof (induction ops arbitrary: ctx)
  case Nil
  then show ?case by simp
next
  case (Cons a ops)
  obtain name fn where a: "a = (name, fn)" by (cases a)
  show ?case
  proof (cases "js_truthy (Context_getOperator ctx type name)")
    case True
    with Cons a show ?thesis by simp
  next
    case False
    with Cons.prems a obtain table where t: "ctx type = Some table"
      and rest: "addOperators (ctx(type \<mapsto> table(name \<mapsto> fn))) type ops = Inr ctx'"
      by (auto split: option.splits)
    have same: "Context_getOperator (ctx(type \<mapsto> table(name \<mapsto> fn))) t n = Context_getOperator ctx t n"
      using False Cons.prems(2) t by (auto simp: Context_getOperator_def split: option.splits)
    have tr: "js_truthy (Context_getOperator (ctx(type \<mapsto> table(name \<mapsto> fn))) t n)"
      unfolding same by (rule Cons.prems(2))
    from Cons.IH [OF rest tr] show ?thesis
      unfolding same .
  qed
qed

text \<open>
  What holds of the registry: a name bound to an implementation keeps it through every
  later registration, whatever is registered under that name.
\<close>

lemma useOperators_keeps_binding:
  "useOperators global type operators = Inr global' \<Longrightarrow> js_truthy (Context_getOperator global t n)
     \<Longrightarrow> Context_getOperator global' t n = Context_getOperator global t n"
  by (auto simp: useOperators_def split: sum.splits if_splits dest: addOperators_keeps_binding)

text \<open>
  Claim C7 at a failing input.  The query operator \<^verbatim>\<open>$foo\<close> is bound to function 1 and
  \<^verbatim>\<open>useOperators\<close> is called with the different function 2 under the same name.  The
  claim asks for an error.  The check looks the bound function up with null options, finds
  nothing, and the call returns normally; the registry is unchanged and \<^verbatim>\<open>$foo\<close> is
  still function 1.
\<close>

theorem useOperators_collision_not_rejected:
  "useOperators registry_with_foo ''query'' [(''$foo'', Fun 2)] = Inr registry_with_foo
   \<and> Context_getOperator registry_with_foo ''query'' ''$foo'' = Fun 1"
  by (simp add: useOperators_def getOperator_no_options js_truthy_def isFunction_def isOperator_def
      is_alnum_def is_lower_def is_upper_def is_digit_def operator_types_def
      registry_with_foo_def Context_getOperator_def)

section \<open>Equality and order of values\<close>

text \<open>
  \<^verbatim>\<open>getConstructor\<close> and \<^verbatim>\<open>getType\<close> (the name in the tag of
  \<^verbatim>\<open>Object.prototype.toString\<close>).
\<close>

datatype ctor =
  UndefinedC | NullC | BooleanC | NumberC | StringC | RegExpC | FunctionC | ArrayC | ObjectC

definition getConstructor :: "val \<Rightarrow> ctor" where
  "getConstructor v =
     (case v of Undefined \<Rightarrow> UndefinedC | Null \<Rightarrow> NullC | Bool _ \<Rightarrow> BooleanC | Num _ \<Rightarrow> NumberC
      | NaN \<Rightarrow> NumberC | Str _ \<Rightarrow> StringC | RegExp _ _ \<Rightarrow> RegExpC | Fun _ \<Rightarrow> FunctionC
      | Arr _ \<Rightarrow> ArrayC | Obj _ \<Rightarrow> ObjectC)"

definition getType :: "val \<Rightarrow> string" where
  "getType v =
     (case v of Undefined \<Rightarrow> ''Undefined'' | Null \<Rightarrow> ''Null'' | Bool _ \<Rightarrow> ''Boolean''
      | Num _ \<Rightarrow> ''Number'' | NaN \<Rightarrow> ''Number'' | Str _ \<Rightarrow> ''String'' | RegExp _ _ \<Rightarrow> ''RegExp''
      | Fun _ \<Rightarrow> ''Function'' | Arr _ \<Rightarrow> ''Array'' | Obj _ \<Rightarrow> ''Object'')"

text \<open>\<^verbatim>\<open>JS_SIMPLE_TYPES.has(getType(v).toLowerCase())\<close>.\<close>

definition is_simple_type :: "val \<Rightarrow> bool" where
  "is_simple_type v =
     (case v of Fun _ \<Rightarrow> False | Arr _ \<Rightarrow> False | Obj _ \<Rightarrow> False | _ \<Rightarrow> True)"

text \<open>
  The string converters.  A number prints in decimal (the integers of the model below
  \<open>10\<^sup>2\<^sup>1\<close> in absolute value print so in JavaScript); a string prints as
  \<^verbatim>\<open>JSON.stringify\<close> quotes it.
\<close>

function show_nat :: "nat \<Rightarrow> string" where
  "show_nat n = (if n < 10 then [char_of (48 + n)] else show_nat (n div 10) @ [char_of (48 + n mod 10)])"
  by pat_completeness auto
termination
  by (relation "measure id") auto

definition number_toString :: "int \<Rightarrow> string" where
  "number_toString n = (if n < 0 then CHR ''-'' # show_nat (nat (- n)) else show_nat (nat n))"

declare show_nat.simps [simp del]

lemma show_nat_nonempty: "show_nat n \<noteq> []"
  by (subst show_nat.simps) simp

lemma digit_char_inj:
  assumes "a < 10" "b < 10" "char_of (48 + a) = (char_of (48 + b) :: char)"
  shows "a = (b::nat)"
proof -
  from assms(3) have "(48 + a) mod 256 = (48 + b) mod 256"
    by (simp add: char_of_eq_iff take_bit_eq_mod)
  with assms(1,2) show ?thesis by simp
qed

lemma show_nat_inj: "show_nat m = show_nat n \<Longrightarrow> m = n"
proof (induction m arbitrary: n rule: show_nat.induct)
  case (1 m)
  show ?case
  proof (cases "m < 10")
    case True
    then have m: "show_nat m = [char_of (48 + m)]"
      by (subst show_nat.simps) simp
    show ?thesis
    proof (cases "n < 10")
      case True
      then have "show_nat n = [char_of (48 + n)]"
        by (subst show_nat.simps) simp
      with m "1.prems" \<open>m < 10\<close> True show ?thesis
        by (auto dest: digit_char_inj)
    next
      case False
      then have "show_nat n = show_nat (n div 10) @ [char_of (48 + n mod 10)]"
        by (subst show_nat.simps) simp
      with m "1.prems" show_nat_nonempty [of "n div 10"] show ?thesis
        by (cases "show_nat (n div 10)") auto
    qed
  next
    case False
    then have m: "show_nat m = show_nat (m div 10) @ [char_of (48 + m mod 10)]"
      by (subst show_nat.simps) simp
    show ?thesis
    proof (cases "n < 10")
      case True
      then have "show_nat n = [char_of (48 + n)]"
        by (subst show_nat.simps) simp
      with m "1.prems" show_nat_nonempty [of "m div 10"] show ?thesis
        by (cases "show_nat (m div 10)") auto
    next
      case nf: False
      then have "show_nat n = show_nat (n div 10) @ [char_of (48 + n mod 10)]"
        by (subst show_nat.simps) simp
      with m "1.prems" have eq: "show_nat (m div 10) = show_nat (n div 10)"
        and c: "char_of (48 + m mod 10) = (char_of (48 + n mod 10) :: char)"
        by simp_all
      from "1.IH" [OF False eq] have "m div 10 = n div 10" .
      moreover from c have "m mod 10 = n mod 10"
        by (rule digit_char_inj [rotated 2]) simp_all
      ultimately show ?thesis
        by (metis div_mult_mod_eq)
    qed
  qed
qed

lemma show_nat_no_minus: "CHR ''-'' \<notin> set (show_nat n)"
proof (induction n rule: show_nat.induct)
  case (1 n)
  have d: "char_of (48 + k) \<noteq> CHR ''-''" if "k < 10" for k :: nat
  proof
    assume "char_of (48 + k) = CHR ''-''"
    then have "of_char (char_of (48 + k) :: char) = (of_char CHR ''-'' :: nat)" by simp
    with that show False by (simp add: of_char_of)
  qed
  show ?case
  proof (cases "n < 10")
    case True
    then show ?thesis by (subst show_nat.simps) (use d [of n] in auto)
  next
    case False
    with "1.IH" show ?thesis by (subst show_nat.simps) (use d [of "n mod 10"] in auto)
  qed
qed

lemma number_toString_inj [simp]: "number_toString a = number_toString b \<longleftrightarrow> a = b"
proof
  assume eq: "number_toString a = number_toString b"
  show "a = b"
  proof (cases "a < 0"; cases "b < 0")
    assume "a < 0" "b < 0"
    with eq have "nat (- a) = nat (- b)" by (auto simp: number_toString_def dest: show_nat_inj)
    with \<open>a < 0\<close> \<open>b < 0\<close> show ?thesis by simp
  next
    assume "a < 0" "\<not> b < 0"
    with eq have "CHR ''-'' # show_nat (nat (- a)) = show_nat (nat b)"
      by (simp add: number_toString_def)
    then have "CHR ''-'' \<in> set (show_nat (nat b))"
      by (metis list.set_intros(1))
    with show_nat_no_minus show ?thesis by blast
  next
    assume "\<not> a < 0" "b < 0"
    with eq have "show_nat (nat a) = CHR ''-'' # show_nat (nat (- b))"
      by (simp add: number_toString_def)
    then have "CHR ''-'' \<in> set (show_nat (nat a))"
      by (metis list.set_intros(1))
    with show_nat_no_minus show ?thesis by blast
  next
    assume "\<not> a < 0" "\<not> b < 0"
    with eq have "nat a = nat b" by (auto simp: number_toString_def dest: show_nat_inj)
    with \<open>\<not> a < 0\<close> \<open>\<not> b < 0\<close> show ?thesis by simp
  qed
qed simp

definition hex_digit :: "nat \<Rightarrow> char" where
  "hex_digit n = (if n < 10 then char_of (48 + n) else char_of (87 + n))"

definition JSON_escape :: "char \<Rightarrow> string" where
  "JSON_escape c =
     (let n = (of_char c :: nat) in
      if c = CHR ''\"'' then [CHR 0x5C, CHR ''\"'']
      else if n = 0x5C then [CHR 0x5C, CHR 0x5C]
      else if n = 8 then [CHR 0x5C, CHR ''b'']
      else if n = 12 then [CHR 0x5C, CHR ''f'']
      else if n = 10 then [CHR 0x5C, CHR ''n'']
      else if n = 13 then [CHR 0x5C, CHR ''r'']
      else if n = 9 then [CHR 0x5C, CHR ''t'']
      else if n < 32 then [CHR 0x5C, CHR ''u'', CHR ''0'', CHR ''0'', hex_digit (n div 16), hex_digit (n mod 16)]
      else [c])"

definition JSON_quote :: "string \<Rightarrow> string" where
  "JSON_quote s = [CHR ''\"''] @ concat (map JSON_escape s) @ [CHR ''\"'']"

text \<open>
  \<^verbatim>\<open>STRING_CONVERTERS\<close>: the converter of the value's constructor applied to the value,
  \<open>None\<close> when the map has no entry for the constructor (arrays and plain objects).
\<close>

definition string_converter :: "platform \<Rightarrow> val \<Rightarrow> string option" where
  "string_converter pf v =
     (case v of
        Undefined \<Rightarrow> Some ''undefined''
      | Null \<Rightarrow> Some ''null''
      | Bool b \<Rightarrow> Some (if b then ''true'' else ''false'')
      | Num n \<Rightarrow> Some (number_toString n)
      | NaN \<Rightarrow> Some ''NaN''
      | Str s \<Rightarrow> Some (JSON_quote s)
      | RegExp src flags \<Rightarrow> Some (''/'' @ src @ ''/'' @ flags)
      | Fun f \<Rightarrow> Some (function_source pf f)
      | Arr _ \<Rightarrow> None
      | Obj _ \<Rightarrow> None)"

text \<open>
  \<^verbatim>\<open>a === b\<close>.  Two arrays, objects or regular expressions are strictly equal only if
  they are the same object, which a tree of values does not record; the model answers
  no, and the comparison that follows in \<open>isEqual\<close> then goes through their contents,
  with the same answer for one object compared with itself (\<open>isEqual_refl\<close>).
\<close>

definition strict_equal :: "val \<Rightarrow> val \<Rightarrow> bool" where
  "strict_equal a b =
     (case a of
        Undefined \<Rightarrow> b = Undefined
      | Null \<Rightarrow> b = Null
      | Bool x \<Rightarrow> b = Bool x
      | Num x \<Rightarrow> b = Num x
      | Str x \<Rightarrow> b = Str x
      | Fun x \<Rightarrow> b = Fun x
      | _ \<Rightarrow> False)"

text \<open>The own property \<^verbatim>\<open>o[k]\<close> of a plain object.\<close>

definition obj_get :: "(string \<times> val) list \<Rightarrow> string \<Rightarrow> val" where
  "obj_get es k = (case map_of es k of None \<Rightarrow> Undefined | Some v \<Rightarrow> v)"

text \<open>
  \<^verbatim>\<open>isEqual(a, b)\<close>: the loop over the work stack \<^verbatim>\<open>args\<close>.  The head of the list is the
  top of the stack; the pairs of members are pushed in key order, so the last one is on
  top.
\<close>

lemma sum_size_zip:
  "length xs = length ys \<Longrightarrow>
     sum_list (map (\<lambda>(a, b). Suc (size a)) (zip xs ys)) = size_list size (xs :: val list)"
  by (induction xs ys rule: list_induct2) auto

lemma sum_size_members:
  "sum_list (map ((\<lambda>(a, b). Suc (size a)) \<circ> (\<lambda>(k, v). (v, f k))) ea)
     \<le> size_list (size_prod (\<lambda>_. 0) size) (ea :: (string \<times> val) list)"
  by (induction ea) auto

function isEqual_loop :: "platform \<Rightarrow> (val \<times> val) list \<Rightarrow> bool" where
  "isEqual_loop pf [] = True"
| "isEqual_loop pf ((a, b) # args) =
     (if strict_equal a b then isEqual_loop pf args
      else if getConstructor a \<noteq> getConstructor b \<or> isFunction a then False
      else (case string_converter pf a of
              Some sa \<Rightarrow> if Some sa \<noteq> string_converter pf b then False else isEqual_loop pf args
            | None \<Rightarrow>
                (case (a, b) of
                   (Arr xs, Arr ys) \<Rightarrow>
                     if length xs \<noteq> length ys then False
                     else isEqual_loop pf (rev (zip xs ys) @ args)
                 | (Obj ea, Obj eb) \<Rightarrow>
                     if length ea \<noteq> length eb then False
                     else if card (set (map fst ea @ map fst eb)) \<noteq> length ea then False
                     else isEqual_loop pf (rev (map (\<lambda>(k, v). (v, obj_get eb k)) ea) @ args)
                 | _ \<Rightarrow> False)))"
  by pat_completeness auto
termination
  apply (relation "measure (\<lambda>(pf, args). sum_list (map (\<lambda>(a, b). Suc (size a)) args))")
  apply (auto simp: sum_size_zip rev_map [symmetric] intro: le_less_trans [OF sum_size_members])
  done

definition isEqual :: "platform \<Rightarrow> val \<Rightarrow> val \<Rightarrow> bool" where
  "isEqual pf a b = isEqual_loop pf [(a, b)]"

text \<open>
  \<^verbatim>\<open>compare(a, b)\<close> of the utilities (\<^verbatim>\<open>compare$1\<close> in the bundle): the rank of the two
  types first; then \<^verbatim>\<open><\<close> and \<^verbatim>\<open>>\<close> for numbers and strings; for the other types
  \<open>isEqual\<close> first and \<^verbatim>\<open><\<close> and \<^verbatim>\<open>>\<close> after it.
\<close>

definition sort_rank :: "val \<Rightarrow> int" where
  "sort_rank v =
     (case v of Undefined \<Rightarrow> 0 | Null \<Rightarrow> 0 | Num _ \<Rightarrow> 1 | NaN \<Rightarrow> 1 | Str _ \<Rightarrow> 2 | Obj _ \<Rightarrow> 3
      | Arr _ \<Rightarrow> 4 | Bool _ \<Rightarrow> 5 | RegExp _ _ \<Rightarrow> 7 | Fun _ \<Rightarrow> 8)"

fun string_less :: "string \<Rightarrow> string \<Rightarrow> bool" where
  "string_less [] [] = False"
| "string_less [] (y # ys) = True"
| "string_less (x # xs) [] = False"
| "string_less (x # xs) (y # ys) =
     ((of_char x :: nat) < of_char y \<or> (x = y \<and> string_less xs ys))"

definition js_less :: "platform \<Rightarrow> val \<Rightarrow> val \<Rightarrow> bool" where
  "js_less pf a b =
     (case (a, b) of
        (Num x, Num y) \<Rightarrow> x < y
      | (Num _, NaN) \<Rightarrow> False
      | (NaN, Num _) \<Rightarrow> False
      | (NaN, NaN) \<Rightarrow> False
      | (Str x, Str y) \<Rightarrow> string_less x y
      | _ \<Rightarrow> rel_less pf a b)"

definition compare1 :: "platform \<Rightarrow> val \<Rightarrow> val \<Rightarrow> int" where
  "compare1 pf a b =
     (let u = sort_rank a; v = sort_rank b in
      if u \<noteq> v then u - v
      else if u = 1 \<or> u = 2 \<or> u = 6 then
        (if js_less pf a b then - 1 else if js_less pf b a then 1 else 0)
      else if isEqual pf a b then 0
      else if js_less pf a b then - 1
      else if js_less pf b a then 1
      else 0)"

section \<open>Reading a path\<close>

text \<open>
  A selector is split at its dots.  A segment of digits only (\<^verbatim>\<open>/^\d+$/\<close>) is numeric;
  it is the index of an array element when it is the canonical numeral of the index.
\<close>

fun split_dot :: "string \<Rightarrow> string list" where
  "split_dot [] = [[]]"
| "split_dot (c # cs) =
     (if c = CHR ''.'' then [] # split_dot cs
      else (case split_dot cs of w # ws \<Rightarrow> (c # w) # ws | [] \<Rightarrow> [[c]]))"

definition is_numeric :: "string \<Rightarrow> bool" where
  "is_numeric s \<longleftrightarrow> s \<noteq> [] \<and> list_all is_digit s"

definition nat_of_digits :: "string \<Rightarrow> nat" where
  "nat_of_digits s = foldl (\<lambda>n c. 10 * n + (of_char c - 48)) 0 s"

definition canonical_index :: "string \<Rightarrow> nat option" where
  "canonical_index s =
     (if is_numeric s \<and> (length s = 1 \<or> hd s \<noteq> CHR ''0'') then Some (nat_of_digits s) else None)"

text \<open>
  The property read \<^verbatim>\<open>v[key]\<close>: own properties of objects, the elements and the length
  of arrays and strings.  Reading a property of \<^verbatim>\<open>null\<close> or \<^verbatim>\<open>undefined\<close> is a
  \<^verbatim>\<open>TypeError\<close>.  \<^verbatim>\<open>getValue(obj, key)\<close> reads only from object-like values.
\<close>

definition js_member :: "platform \<Rightarrow> val \<Rightarrow> string \<Rightarrow> error + val" where
  "js_member pf v key =
     (case v of
        Undefined \<Rightarrow> Inl TypeError
      | Null \<Rightarrow> Inl TypeError
      | Obj es \<Rightarrow> Inr (obj_get es key)
      | Arr xs \<Rightarrow>
          Inr (case canonical_index key of
                 Some i \<Rightarrow> if i < length xs then xs ! i else Undefined
               | None \<Rightarrow> if key = ''length'' then Num (int (length xs)) else Undefined)
      | Str s \<Rightarrow>
          Inr (case canonical_index key of
                 Some i \<Rightarrow> if i < length s then Str [s ! i] else Undefined
               | None \<Rightarrow> if key = ''length'' then Num (int (length s)) else Undefined)
      | Fun f \<Rightarrow> Inr (if key = ''length'' then Num (function_arity pf f) else Undefined)
      | _ \<Rightarrow> Inr Undefined)"

definition getValue :: "val \<Rightarrow> string \<Rightarrow> val" where
  "getValue obj key =
     (case obj of
        Obj es \<Rightarrow> obj_get es key
      | Arr xs \<Rightarrow>
          (case canonical_index key of
             Some i \<Rightarrow> if i < length xs then xs ! i else Undefined
           | None \<Rightarrow> if key = ''length'' then Num (int (length xs)) else Undefined)
      | _ \<Rightarrow> Undefined)"

lemma size_obj_get: "size (obj_get es k) \<le> size_list (size_prod (\<lambda>_. 0) size) es"
proof (induction es)
  case Nil
  show ?case by (simp add: obj_get_def)
next
  case (Cons e es)
  then show ?case
    by (cases e) (auto simp: obj_get_def split: option.splits)
qed

lemma size_nth_le: "i < length xs \<Longrightarrow> size (xs ! i) \<le> size_list size (xs :: val list)"
proof (induction xs arbitrary: i)
  case Nil
  then show ?case by simp
next
  case (Cons x xs)
  then show ?case
    by (cases i) (auto simp: le_SucI trans_le_add2)
qed

lemma size_getValue: "size (getValue v k) \<le> size v"
  using size_obj_get [of _ k] size_nth_le
  by (auto simp: getValue_def le_SucI split: val.splits option.splits)

text \<open>
  \<^verbatim>\<open>resolve2(o, path)\<close> inside \<^verbatim>\<open>resolve\<close>.  The counter \<^verbatim>\<open>depth\<close> is shared by all
  calls, so it is passed in and returned.  \<open>resolve_loop\<close> is the \<^verbatim>\<open>for\<close> loop from the
  current segment on (\<open>first\<close> says whether it is at \<^verbatim>\<open>i === 0\<close>), \<open>resolve_items\<close> the
  \<^verbatim>\<open>reduce\<close> over the elements of an array, which keeps the results that are not
  \<^verbatim>\<open>undefined\<close>.
\<close>

function resolve_loop :: "nat \<Rightarrow> val \<Rightarrow> string list \<Rightarrow> bool \<Rightarrow> val \<times> nat"
  and resolve_items :: "nat \<Rightarrow> val list \<Rightarrow> string list \<Rightarrow> val list \<times> nat" where
  "resolve_loop depth v [] first = (v, depth)"
| "resolve_loop depth v (field # rest) first =
     (if \<not> is_numeric field \<and> isArray v then
        (if first \<and> depth > 0 then (v, depth)
         else (case v of
                 Arr items \<Rightarrow>
                   (case resolve_items (depth + 1) items (field # rest) of
                      (acc, depth') \<Rightarrow> (Arr acc, depth'))
               | _ \<Rightarrow> (v, depth)))
      else (let v' = getValue v field in
            if v' = Undefined then (v', depth) else resolve_loop depth v' rest False))"
| "resolve_items depth [] subpath = ([], depth)"
| "resolve_items depth (item # items) subpath =
     (case resolve_loop depth item subpath True of
        (r, depth') \<Rightarrow>
          (case resolve_items depth' items subpath of
             (acc, depth'') \<Rightarrow> (if r \<noteq> Undefined then r # acc else acc, depth'')))"
  by pat_completeness auto
termination
  apply (relation "measures [\<lambda>x. case x of Inl (d, v, p, f) \<Rightarrow> size v | Inr (d, vs, p) \<Rightarrow> size_list size vs,
                              \<lambda>x. case x of Inl (d, v, p, f) \<Rightarrow> length p | Inr (d, vs, p) \<Rightarrow> 0]")
  apply (auto simp: isArray_def)
  subgoal for v field
    using size_getValue [of v field] by linarith
  subgoal for v field
    using size_getValue [of v field] by linarith
  done

text \<open>
  \<^verbatim>\<open>unwrap(arr, depth)\<close>: while the counter is not used up and \<^verbatim>\<open>arr.length === 1\<close>,
  replace \<^verbatim>\<open>arr\<close> by \<^verbatim>\<open>arr[0]\<close>.
\<close>

fun unwrap :: "platform \<Rightarrow> val \<Rightarrow> nat \<Rightarrow> error + val" where
  "unwrap pf arr 0 = Inr arr"
| "unwrap pf arr (Suc depth) =
     (case js_member pf arr ''length'' of
        Inl e \<Rightarrow> Inl e
      | Inr len \<Rightarrow>
          if len = Num 1
          then (case js_member pf arr ''0'' of Inl e \<Rightarrow> Inl e | Inr x \<Rightarrow> unwrap pf x depth)
          else Inr arr)"

text \<open>
  \<^verbatim>\<open>resolve(obj, selector, options)\<close>; the only option is \<^verbatim>\<open>unwrapArray\<close>.
  \<open>resolve_with_depth\<close> is the value \<^verbatim>\<open>result\<close> with the final value of the counter.
\<close>

definition resolve_with_depth :: "val \<Rightarrow> string \<Rightarrow> val \<times> nat" where
  "resolve_with_depth obj selector =
     (if is_simple_type obj then (obj, 0) else resolve_loop 0 obj (split_dot selector) True)"

definition resolve :: "platform \<Rightarrow> val \<Rightarrow> string \<Rightarrow> bool \<Rightarrow> error + val" where
  "resolve pf obj selector unwrapArray =
     (case resolve_with_depth obj selector of
        (result, depth) \<Rightarrow>
          if isArray result \<and> unwrapArray then unwrap pf result depth else Inr result)"

section \<open>Predicates of the comparison operators\<close>

definition ensureArray :: "val \<Rightarrow> val list" where
  "ensureArray x = (case x of Arr xs \<Rightarrow> xs | _ \<Rightarrow> [x])"

text \<open>\<^verbatim>\<open>flatten(xs, depth)\<close>: the inner function \<^verbatim>\<open>flatten2\<close>, which pushes onto \<^verbatim>\<open>arr\<close>.\<close>

fun flatten2 :: "val list \<Rightarrow> int \<Rightarrow> val list" where
  "flatten2 [] n = []"
| "flatten2 (Arr zs # ys) n =
     (if n > 0 \<or> n < 0 then flatten2 zs (max (- 1) (n - 1)) @ flatten2 ys n
      else Arr zs # flatten2 ys n)"
| "flatten2 (y # ys) n = y # flatten2 ys n"

definition flatten :: "val list \<Rightarrow> int \<Rightarrow> val list" where
  "flatten xs depth = flatten2 xs depth"

text \<open>
  \<^verbatim>\<open>$eq\<close>, \<^verbatim>\<open>$ne\<close> and the order predicates (\<^verbatim>\<open>$eq$2\<close>, \<^verbatim>\<open>$gt$2\<close>, ... in the bundle).
  The third argument is the option \<^verbatim>\<open>depth\<close>.
\<close>

definition eq_pred :: "platform \<Rightarrow> val \<Rightarrow> val \<Rightarrow> int \<Rightarrow> bool" where
  "eq_pred pf a b depth =
     (if isEqual pf a b then True
      else if isNil a \<and> isNil b then True
      else (case a of
              Arr xs \<Rightarrow> list_ex (isEqual pf b) xs \<or> list_ex (isEqual pf b) (flatten xs depth)
            | _ \<Rightarrow> False))"

definition ne_pred :: "platform \<Rightarrow> val \<Rightarrow> val \<Rightarrow> int \<Rightarrow> bool" where
  "ne_pred pf a b depth = (\<not> eq_pred pf a b depth)"

definition compare_with :: "val \<Rightarrow> val \<Rightarrow> (val \<Rightarrow> val \<Rightarrow> bool) \<Rightarrow> bool" where
  "compare_with a b f = list_ex (\<lambda>x. getType x = getType b \<and> f x b) (ensureArray a)"

definition lt_pred :: "platform \<Rightarrow> val \<Rightarrow> val \<Rightarrow> int \<Rightarrow> bool" where
  "lt_pred pf a b depth = compare_with a b (\<lambda>x y. compare1 pf x y < 0)"

definition lte_pred :: "platform \<Rightarrow> val \<Rightarrow> val \<Rightarrow> int \<Rightarrow> bool" where
  "lte_pred pf a b depth = compare_with a b (\<lambda>x y. compare1 pf x y \<le> 0)"

definition gt_pred :: "platform \<Rightarrow> val \<Rightarrow> val \<Rightarrow> int \<Rightarrow> bool" where
  "gt_pred pf a b depth = compare_with a b (\<lambda>x y. compare1 pf x y > 0)"

definition gte_pred :: "platform \<Rightarrow> val \<Rightarrow> val \<Rightarrow> int \<Rightarrow> bool" where
  "gte_pred pf a b depth = compare_with a b (\<lambda>x y. compare1 pf x y \<ge> 0)"

section \<open>Queries\<close>

text \<open>
  A compiled query is the list \<^verbatim>\<open>compiled\<close> of its predicates.  A predicate may throw
  (a \<^verbatim>\<open>$where\<close> function, a custom operator), so it returns an error or a truth value;
  what \<^verbatim>\<open>test\<close> does with the result of a predicate is \<^verbatim>\<open>!result\<close>, so the truth
  value stands for the result.
\<close>

type_synonym predicate = "val \<Rightarrow> error + bool"

type_synonym query_operator = "string \<Rightarrow> val \<Rightarrow> error + predicate"

text \<open>
  The options a query reads.  \<open>context_query_ops\<close> is the table of query operators of
  the context the caller passed (empty by default).
\<close>

record qoptions =
  scriptEnabled :: bool
  useStrictMode :: bool
  useGlobalContext :: bool
  context_query_ops :: "string \<rightharpoonup> query_operator"

definition default_options :: qoptions where
  "default_options =
     \<lparr>scriptEnabled = True, useStrictMode = True, useGlobalContext = True,
      context_query_ops = Map.empty\<rparr>"

text \<open>\<^verbatim>\<open>Query.test(obj)\<close>: the first predicate that fails decides.\<close>

fun test :: "predicate list \<Rightarrow> val \<Rightarrow> error + bool" where
  "test [] obj = Inr True"
| "test (p # ps) obj =
     (case p obj of Inl e \<Rightarrow> Inl e | Inr b \<Rightarrow> if \<not> b then Inr False else test ps obj)"

text \<open>\<^verbatim>\<open>queries.some(q => q.test(obj))\<close> and \<^verbatim>\<open>queries.every(q => q.test(obj))\<close>.\<close>

fun some_test :: "predicate list list \<Rightarrow> val \<Rightarrow> error + bool" where
  "some_test [] obj = Inr False"
| "some_test (q # qs) obj =
     (case test q obj of Inl e \<Rightarrow> Inl e | Inr b \<Rightarrow> if b then Inr True else some_test qs obj)"

fun every_test :: "predicate list list \<Rightarrow> val \<Rightarrow> error + bool" where
  "every_test [] obj = Inr True"
| "every_test (q # qs) obj =
     (case test q obj of Inl e \<Rightarrow> Inl e | Inr b \<Rightarrow> if \<not> b then Inr False else every_test qs obj)"

text \<open>The results of a \<^verbatim>\<open>map\<close> whose function may throw: the first error, or all values.\<close>

fun collect :: "('e + 'a) list \<Rightarrow> 'e + 'a list" where
  "collect [] = Inr []"
| "collect (r # rs) =
     (case r of
        Inl e \<Rightarrow> Inl e
      | Inr x \<Rightarrow> (case collect rs of Inl e \<Rightarrow> Inl e | Inr xs \<Rightarrow> Inr (x # xs)))"

text \<open>
  \<^verbatim>\<open>createQueryOperator(predicate)\<close>: the operator resolves the selector on the document,
  unwrapping arrays, and applies the predicate with the option \<^verbatim>\<open>depth\<close>.
\<close>

definition createQueryOperator :: "platform \<Rightarrow> (val \<Rightarrow> val \<Rightarrow> int \<Rightarrow> bool) \<Rightarrow> query_operator" where
  "createQueryOperator pf pred selector value =
     (let depth = max 1 (int (length (split_dot selector)) - 1) in
      Inr (\<lambda>obj. case resolve pf obj selector True of
                    Inl e \<Rightarrow> Inl e
                  | Inr lhs \<Rightarrow> Inr (pred lhs value depth)))"

text \<open>
  The logical operators and \<^verbatim>\<open>$where\<close>.  \<open>newQuery\<close> stands for
  \<^verbatim>\<open>expr => new Query(expr, options)\<close>, which compiles the condition.
\<close>

definition where_op :: "platform \<Rightarrow> qoptions \<Rightarrow> query_operator" where
  "where_op pf opts selector rhs =
     (if \<not> scriptEnabled opts then Inl WhereNeedsScriptEnabled
      else (case rhs of
              Fun f \<Rightarrow>
                Inr (\<lambda>obj. case call_function pf f obj of
                              Inl e \<Rightarrow> Inl e
                            | Inr r \<Rightarrow> Inr (truthy r (useStrictMode opts)))
            | _ \<Rightarrow> Inl WhereNeedsFunction))"

definition and_op :: "(val \<Rightarrow> error + predicate list) \<Rightarrow> query_operator" where
  "and_op newQuery selector rhs =
     (case rhs of
        Arr exprs \<Rightarrow>
          (case collect (map newQuery exprs) of
             Inl e \<Rightarrow> Inl e
           | Inr queries \<Rightarrow> Inr (\<lambda>obj. every_test queries obj))
      | _ \<Rightarrow> Inl (ExpectsArray ''$and''))"

definition or_op :: "(val \<Rightarrow> error + predicate list) \<Rightarrow> query_operator" where
  "or_op newQuery selector rhs =
     (case rhs of
        Arr exprs \<Rightarrow>
          (case collect (map newQuery exprs) of
             Inl e \<Rightarrow> Inl e
           | Inr queries \<Rightarrow> Inr (\<lambda>obj. some_test queries obj))
      | _ \<Rightarrow> Inl (ExpectsArray ''$or''))"

definition nor_op :: "(val \<Rightarrow> error + predicate list) \<Rightarrow> query_operator" where
  "nor_op newQuery selector rhs =
     (if \<not> isArray rhs then Inl (ExpectsArray ''$nor'')
      else (case or_op newQuery ''$or'' rhs of
              Inl e \<Rightarrow> Inl e
            | Inr f \<Rightarrow> Inr (\<lambda>obj. case f obj of Inl e \<Rightarrow> Inl e | Inr b \<Rightarrow> Inr (\<not> b))))"

text \<open>
  The query table of the global context, as the module leaves it after loading: the
  operators of \<^verbatim>\<open>queryOperators\<close>.  The registry never rebinds a name, so these stay.
\<close>

definition global_query_operator ::
  "(val \<Rightarrow> error + predicate list) \<Rightarrow> platform \<Rightarrow> qoptions \<Rightarrow> string \<Rightarrow> query_operator option" where
  "global_query_operator newQuery pf opts name =
     (if name = ''$and'' then Some (and_op newQuery)
      else if name = ''$or'' then Some (or_op newQuery)
      else if name = ''$nor'' then Some (nor_op newQuery)
      else if name = ''$where'' then Some (where_op pf opts)
      else if name = ''$eq'' then Some (createQueryOperator pf (eq_pred pf))
      else if name = ''$ne'' then Some (createQueryOperator pf (ne_pred pf))
      else if name = ''$gt'' then Some (createQueryOperator pf (gt_pred pf))
      else if name = ''$gte'' then Some (createQueryOperator pf (gte_pred pf))
      else if name = ''$lt'' then Some (createQueryOperator pf (lt_pred pf))
      else if name = ''$lte'' then Some (createQueryOperator pf (lte_pred pf))
      else other_query_ops pf name)"

text \<open>
  \<^verbatim>\<open>getOperator(OperatorType.QUERY, operator, this.options)\<close>: the caller's context
  first, the global context when that finds nothing and \<^verbatim>\<open>useGlobalContext\<close> is set.
\<close>

definition getOperator_query ::
  "(val \<Rightarrow> error + predicate list) \<Rightarrow> platform \<Rightarrow> qoptions \<Rightarrow> string \<Rightarrow> query_operator option" where
  "getOperator_query newQuery pf opts operator =
     (let fn = context_query_ops opts operator in
      if fn = None \<and> useGlobalContext opts then global_query_operator newQuery pf opts operator
      else fn)"

definition processOperator ::
  "(val \<Rightarrow> error + predicate list) \<Rightarrow> platform \<Rightarrow> qoptions \<Rightarrow> string \<Rightarrow> string \<Rightarrow> val
     \<Rightarrow> error + predicate" where
  "processOperator newQuery pf opts field operator value =
     (case getOperator_query newQuery pf opts operator of
        None \<Rightarrow> Inl (UnknownOperator operator)
      | Some call \<Rightarrow> call field value)"

text \<open>
  \<^verbatim>\<open>normalize(expr)\<close>, as the list of entries of the object it returns.  Assigning
  \<^verbatim>\<open>$regex\<close> replaces the value of the key in place; \<^verbatim>\<open>$options\<close> is deleted.
\<close>

definition normalize :: "platform \<Rightarrow> val \<Rightarrow> error + (string \<times> val) list" where
  "normalize pf expr =
     (if is_simple_type expr then
        (if isRegExp expr then Inr [(''$regex'', expr)] else Inr [(''$eq'', expr)])
      else (case expr of
              Obj es \<Rightarrow>
                if \<not> list_ex isOperator (map fst es) then Inr [(''$eq'', expr)]
                else if map_of es ''$regex'' \<noteq> None then
                  (case new_RegExp pf (obj_get es ''$regex'') (obj_get es ''$options'') of
                     Inl e \<Rightarrow> Inl e
                   | Inr (src, flags) \<Rightarrow>
                       Inr (filter (\<lambda>(k, v). k \<noteq> ''$options'')
                              (map (\<lambda>(k, v). if k = ''$regex'' then (k, RegExp src flags) else (k, v)) es)))
                else Inr es
            | _ \<Rightarrow> Inr [(''$eq'', expr)]))"

text \<open>
  The body of \<^verbatim>\<open>Query.compile\<close>: the loop over the entries of the condition.  The
  state is \<^verbatim>\<open>whereOperator\<close> (the expression of a \<^verbatim>\<open>$where\<close> key seen so far) and the
  list \<^verbatim>\<open>compiled\<close>.  \<open>process\<close> stands for \<^verbatim>\<open>this.processOperator\<close>, which returns
  the predicate that the loop pushes.
\<close>

definition logical_keys :: "string list" where
  "logical_keys = [''$and'', ''$or'', ''$nor'', ''$expr'', ''$jsonSchema'']"

fun process_entries ::
  "(string \<Rightarrow> string \<Rightarrow> val \<Rightarrow> error + predicate) \<Rightarrow> string \<Rightarrow> (string \<times> val) list
     \<Rightarrow> predicate list \<Rightarrow> error + predicate list" where
  "process_entries process field [] compiled = Inr compiled"
| "process_entries process field ((operator, v) # rest) compiled =
     (case process field operator v of
        Inl e \<Rightarrow> Inl e
      | Inr fn \<Rightarrow> process_entries process field rest (compiled @ [fn]))"

fun compile_loop ::
  "(string \<Rightarrow> string \<Rightarrow> val \<Rightarrow> error + predicate) \<Rightarrow> platform \<Rightarrow> (string \<times> val) list
     \<Rightarrow> val option \<Rightarrow> predicate list \<Rightarrow> error + predicate list" where
  "compile_loop process pf [] whereOperator compiled = Inr compiled"
| "compile_loop process pf ((field, expr) # rest) whereOperator compiled =
     (case (if field = ''$where'' then Inr (Some expr, compiled)
            else if field \<in> set logical_keys then
              (case process field field expr of
                 Inl e \<Rightarrow> Inl e
               | Inr fn \<Rightarrow> Inr (whereOperator, compiled @ [fn]))
            else if isOperator field then Inl (UnknownTopLevelOperator field)
            else (case normalize pf expr of
                    Inl e \<Rightarrow> Inl e
                  | Inr ops \<Rightarrow>
                      (case process_entries process field ops compiled of
                         Inl e \<Rightarrow> Inl e
                       | Inr compiled' \<Rightarrow> Inr (whereOperator, compiled')))) of
        Inl e \<Rightarrow> Inl e
      | Inr (whereOperator', compiled') \<Rightarrow>
          (case whereOperator' of
             None \<Rightarrow> compile_loop process pf rest whereOperator' compiled'
           | Some wexpr \<Rightarrow>
               (case process ''$where'' ''$where'' wexpr of
                  Inl e \<Rightarrow> Inl e
                | Inr fn \<Rightarrow> compile_loop process pf rest whereOperator' (compiled' @ [fn]))))"

text \<open>The operands the loop hands to \<open>process\<close>, for the termination of \<open>compile\<close>.\<close>

definition operands :: "platform \<Rightarrow> (string \<times> val) list \<Rightarrow> val option \<Rightarrow> val set" where
  "operands pf es w =
     snd ` set es
     \<union> {v. \<exists>f e ops k. (f, e) \<in> set es \<and> normalize pf e = Inr ops \<and> (k, v) \<in> set ops}
     \<union> set_option w"

definition subqueries :: "val \<Rightarrow> val set" where
  "subqueries v = (case v of Arr qs \<Rightarrow> set qs | _ \<Rightarrow> {})"

lemma process_entries_cong:
  assumes "\<And>op v. (op, v) \<in> set ops \<Longrightarrow> P f op v = P' f op v"
  shows "process_entries P f ops c = process_entries P' f ops c"
  using assms by (induction ops arbitrary: c) (auto split: sum.splits)

lemma compile_loop_cong [fundef_cong]:
  assumes "pf = pf'" "es = es'" "w = w'" "c = c'"
    and "\<And>f op v. v \<in> operands pf' es' w' \<Longrightarrow> P f op v = P' f op v"
  shows "compile_loop P pf es w c = compile_loop P' pf' es' w' c'"
proof -
  have "compile_loop P pf es w c = compile_loop P' pf es w c"
    if "\<And>f op v. v \<in> operands pf es w \<Longrightarrow> P f op v = P' f op v"
    using that
  proof (induction es arbitrary: w c)
    case Nil
    show ?case by simp
  next
    case (Cons a es)
    obtain field expr where a: "a = (field, expr)" by (cases a)
    have P1: "P f op expr = P' f op expr" for f op
      by (rule Cons.prems) (simp add: operands_def a)
    have Pw: "P f op x = P' f op x" if "w = Some x" for f op x
      by (rule Cons.prems) (simp add: operands_def that)
    have Pn: "process_entries P field ops c = process_entries P' field ops c"
      if "normalize pf expr = Inr ops" for ops c
    proof (rule process_entries_cong)
      fix op v assume "(op, v) \<in> set ops"
      with that have "v \<in> operands pf (a # es) w"
        unfolding operands_def a by auto
      then show "P field op v = P' field op v" by (rule Cons.prems)
    qed
    have rest: "compile_loop P pf es w' c' = compile_loop P' pf es w' c'"
      if "w' = w \<or> w' = Some expr" for w' c'
    proof (rule Cons.IH)
      fix f op v assume "v \<in> operands pf es w'"
      with that have "v \<in> operands pf (a # es) w"
        unfolding operands_def a by auto
      then show "P f op v = P' f op v" by (rule Cons.prems)
    qed
    show ?case
      unfolding a
      by (auto simp: P1 Pw Pn rest split: sum.splits option.splits)
  qed
  with assms show ?thesis by simp
qed

lemma collect_map_cong:
  "(\<And>q. q \<in> set qs \<Longrightarrow> K q = K' q) \<Longrightarrow> collect (map K qs) = collect (map K' qs)"
proof (induction qs)
  case Nil
  show ?case by simp
next
  case (Cons q qs)
  have "K q = K' q" by (rule Cons.prems) simp
  moreover have "collect (map K qs) = collect (map K' qs)"
    by (rule Cons.IH) (simp add: Cons.prems)
  ultimately show ?case by (simp only: list.map collect.simps)
qed

lemma processOperator_cong [fundef_cong]:
  assumes "pf = pf'" "opts = opts'" "f = f'" "op = op'" "v = v'"
    and "\<And>q. q \<in> subqueries v' \<Longrightarrow> K q = K' q"
  shows "processOperator K pf opts f op v = processOperator K' pf' opts' f' op' v'"
proof -
  have *: "collect (map K qs) = collect (map K' qs)" if "v' = Arr qs" for qs
    by (rule collect_map_cong) (simp add: assms(6) subqueries_def that)
  have "and_op K f' v' = and_op K' f' v'" "or_op K s v' = or_op K' s v'" for s
    by (auto simp: and_op_def or_op_def * split: val.splits)
  then have "nor_op K f' v' = nor_op K' f' v'"
    by (simp add: nor_op_def)
  with \<open>and_op K f' v' = and_op K' f' v'\<close> \<open>\<And>s. or_op K s v' = or_op K' s v'\<close>
  show ?thesis
    unfolding assms(1-5) processOperator_def getOperator_query_def global_query_operator_def
    by (auto simp: Let_def split: option.splits)
qed

lemma size_member_value:
  "(k, v) \<in> set es \<Longrightarrow> size v < size_list (size_prod (\<lambda>_. 0) size) (es :: (string \<times> val) list)"
  by (induction es) auto

lemma size_element: "q \<in> set qs \<Longrightarrow> size q < size_list size (qs :: val list)"
  by (induction qs) auto

lemma normalize_operand:
  assumes "normalize pf e = Inr ops" and "(k, v) \<in> set ops"
  shows "v = e \<or> (\<exists>src flags. v = RegExp src flags) \<or> (\<exists>es'. e = Obj es' \<and> (k, v) \<in> set es')"
  using assms
  by (auto simp: normalize_def split: if_splits val.splits sum.splits prod.splits)

lemma size_subquery:
  assumes "v \<in> operands pf es None" and "q \<in> subqueries v"
  shows "size q < Suc (size_list (size_prod (\<lambda>_. 0) size) es)"
proof -
  from assms(2) obtain qs where v: "v = Arr qs" and q: "q \<in> set qs"
    by (auto simp: subqueries_def split: val.splits)
  from q have qv: "size q < size v"
    using size_element [of q qs] by (simp add: v)
  from assms(1) consider (entry) f where "(f, v) \<in> set es"
    | (norm) f e ops k where "(f, e) \<in> set es" "normalize pf e = Inr ops" "(k, v) \<in> set ops"
    by (auto simp: operands_def)
  then have "size v < size_list (size_prod (\<lambda>_. 0) size) es"
  proof cases
    case entry
    then show ?thesis by (rule size_member_value)
  next
    case norm
    from normalize_operand [OF norm(2,3)] v
    have "v = e \<or> (\<exists>es'. e = Obj es' \<and> (k, v) \<in> set es')" by auto
    then have "size v \<le> size e"
    proof
      assume "v = e"
      then show ?thesis by simp
    next
      assume "\<exists>es'. e = Obj es' \<and> (k, v) \<in> set es'"
      then obtain es' where "e = Obj es'" and "(k, v) \<in> set es'" by blast
      with size_member_value [of k v es'] show ?thesis by simp
    qed
    with size_member_value [OF norm(1)] show ?thesis by simp
  qed
  with qv show ?thesis by simp
qed

function compile :: "platform \<Rightarrow> qoptions \<Rightarrow> val \<Rightarrow> error + predicate list" where
  "compile pf opts condition =
     (case condition of
        Obj es \<Rightarrow> compile_loop (processOperator (compile pf opts) pf opts) pf es None []
      | _ \<Rightarrow> Inl CriteriaNotObject)"
  by pat_completeness auto
termination
  apply (relation "measure (\<lambda>(pf, opts, c). size c)")
  apply (auto intro: size_subquery)
  done


declare compile.simps [simp del]

text \<open>
  \<^verbatim>\<open>Query.remove(collection)\<close>: the \<^verbatim>\<open>reduce\<close> that pushes onto a new array every
  document the query does not match.
\<close>

fun remove_loop :: "predicate list \<Rightarrow> val list \<Rightarrow> val list \<Rightarrow> error + val list" where
  "remove_loop q [] acc = Inr acc"
| "remove_loop q (obj # rest) acc =
     (case test q obj of
        Inl e \<Rightarrow> Inl e
      | Inr b \<Rightarrow> remove_loop q rest (if \<not> b then acc @ [obj] else acc))"

section \<open>Removing documents from a collection\<close>

text \<open>
  The arrays of documents that callers and the facade hold are kept in a store: an
  array is known by its address, and \<open>next_free\<close> is the address the next new array
  gets.  \<^verbatim>\<open>Query.remove\<close> reads the array \<^verbatim>\<open>collection\<close> and builds its result in a new
  array.  Calling \<^verbatim>\<open>reduce\<close> on something that is not an array is a \<^verbatim>\<open>TypeError\<close>.
\<close>

record store =
  arrays :: "nat \<rightharpoonup> val list"
  next_free :: nat

definition Query_remove :: "predicate list \<Rightarrow> store \<Rightarrow> nat \<Rightarrow> error + nat \<times> store" where
  "Query_remove q st collection =
     (case arrays st collection of
        None \<Rightarrow> Inl TypeError
      | Some docs \<Rightarrow>
          (case remove_loop q docs [] of
             Inl e \<Rightarrow> Inl e
           | Inr acc \<Rightarrow>
               Inr (next_free st,
                    st\<lparr>arrays := (arrays st)(next_free st \<mapsto> acc), next_free := Suc (next_free st)\<rparr>)))"

text \<open>
  \<^verbatim>\<open>remove(collection, criteria, options)\<close> of the engine (\<^verbatim>\<open>remove$1\<close>), and the function
  \<^verbatim>\<open>remove(data, query)\<close> of the facade, which passes no options, so the query gets the
  default ones.
\<close>

definition mingo_remove :: "platform \<Rightarrow> qoptions \<Rightarrow> store \<Rightarrow> nat \<Rightarrow> val \<Rightarrow> error + nat \<times> store" where
  "mingo_remove pf opts st collection criteria =
     (case compile pf opts criteria of
        Inl e \<Rightarrow> Inl e
      | Inr q \<Rightarrow> Query_remove q st collection)"

definition facade_remove :: "platform \<Rightarrow> store \<Rightarrow> nat \<Rightarrow> val \<Rightarrow> error + nat \<times> store" where
  "facade_remove pf st data query = mingo_remove pf default_options st data query"

text \<open>
  The class \<^verbatim>\<open>Collection\<close> has one field, the reference \<^verbatim>\<open>this.collection\<close>.  Its method
  \<^verbatim>\<open>remove\<close> assigns the new array to the field and returns it.
\<close>

record Collection =
  collection :: nat

definition Collection_remove ::
  "platform \<Rightarrow> store \<Rightarrow> Collection \<Rightarrow> val \<Rightarrow> error + nat \<times> store \<times> Collection" where
  "Collection_remove pf st this query =
     (case facade_remove pf st (collection this) query of
        Inl e \<Rightarrow> Inl e
      | Inr (newData, st') \<Rightarrow> Inr (newData, st', this\<lparr>collection := newData\<rparr>))"

text \<open>A platform for concrete runs: function 0 returns \<^verbatim>\<open>true\<close>, every other one \<^verbatim>\<open>false\<close>.\<close>

definition plain_platform :: platform where
  "plain_platform =
     \<lparr>call_function = (\<lambda>f this. Inr (Bool (f = 0))),
      rel_less = (\<lambda>a b. False),
      coerced_plus = (\<lambda>a b. NaN),
      coerced_times = (\<lambda>a b. NaN),
      coerced_int32 = (\<lambda>v. 0),
      new_RegExp = (\<lambda>p f. Inl TypeError),
      function_source = (\<lambda>f. []),
      function_arity = (\<lambda>f. 0),
      JSON_stringify = (\<lambda>v. Inl TypeError),
      other_query_ops = Map.empty\<rparr>"

definition three_documents :: "val list" where
  "three_documents =
     [Obj [(''a'', Num 1), (''b'', Num 2)], Obj [(''a'', Num 2), (''b'', Num 2)],
      Obj [(''a'', Num 3), (''b'', Num 4)]]"

definition store_of_three :: store where
  "store_of_three = \<lparr>arrays = [0 \<mapsto> three_documents], next_free = 1\<rparr>"

section \<open>Properties of queries\<close>

lemmas query_eval =
  compile_loop.simps process_entries.simps normalize_def is_simple_type_def isRegExp_def
  processOperator_def getOperator_query_def global_query_operator_def default_options_def
  createQueryOperator_def isOperator_def logical_keys_def is_alnum_def is_lower_def is_upper_def
  is_digit_def

lemmas resolve_eval =
  resolve_def resolve_with_depth_def is_simple_type_def isArray_def is_numeric_def is_digit_def getValue_def obj_get_def
  canonical_index_def

lemmas pred_eval =
  eq_pred_def gt_pred_def compare_with_def ensureArray_def getType_def isEqual_def strict_equal_def
  getConstructor_def isFunction_def string_converter_def compare1_def sort_rank_def js_less_def isNil_def

lemma processOperator_or:
  assumes "context_query_ops opts ''$or'' = None" "useGlobalContext opts"
  shows "processOperator K pf opts f ''$or'' v = or_op K f v"
  using assms by (simp add: processOperator_def getOperator_query_def global_query_operator_def)

lemma processOperator_nor:
  assumes "context_query_ops opts ''$nor'' = None" "useGlobalContext opts"
  shows "processOperator K pf opts f ''$nor'' v = nor_op K f v"
  using assms by (simp add: processOperator_def getOperator_query_def global_query_operator_def)

lemma compile_single_logical:
  assumes "k \<in> set logical_keys"
  shows "compile pf opts (Obj [(k, v)]) =
           (case processOperator (compile pf opts) pf opts k k v of
              Inl e \<Rightarrow> Inl e
            | Inr fn \<Rightarrow> Inr [fn])"
proof -
  from assms have "k \<noteq> ''$where''" by (auto simp: logical_keys_def)
  with assms show ?thesis
    by (subst compile.simps) (simp split: sum.splits)
qed

lemma test_single: "test [p] d = p d"
  by (cases "p d") auto

text \<open>
  Claim C2.  For all sub-queries \<open>A\<close> and \<open>B\<close> that compile, with \<^verbatim>\<open>$or\<close> and \<^verbatim>\<open>$nor\<close>
  the operators of the global registry: the queries \<^verbatim>\<open>{$or: [A, B]}\<close> and
  \<^verbatim>\<open>{$nor: [A, B]}\<close> compile; on every document, the first tests as \<open>A\<close> tests if that
  is true or an error and as \<open>B\<close> tests otherwise, and the second tests as the negation
  of the first; so where \<open>A\<close> and \<open>B\<close> test without error, \<^verbatim>\<open>$or\<close> is true exactly when
  one of them is, and \<^verbatim>\<open>$nor\<close> exactly when \<^verbatim>\<open>$or\<close> is false.
\<close>

theorem or_nor_queries:
  assumes or_builtin: "context_query_ops opts ''$or'' = None"
    and nor_builtin: "context_query_ops opts ''$nor'' = None"
    and global: "useGlobalContext opts"
    and A: "compile pf opts A = Inr qa"
    and B: "compile pf opts B = Inr qb"
  shows "\<exists>qor qnor.
           compile pf opts (Obj [(''$or'', Arr [A, B])]) = Inr qor
         \<and> compile pf opts (Obj [(''$nor'', Arr [A, B])]) = Inr qnor
         \<and> (\<forall>d. test qor d = (case test qa d of Inl e \<Rightarrow> Inl e | Inr a \<Rightarrow> if a then Inr True else test qb d))
         \<and> (\<forall>d. test qnor d = (case test qor d of Inl e \<Rightarrow> Inl e | Inr b \<Rightarrow> Inr (\<not> b)))
         \<and> (\<forall>d a b. test qa d = Inr a \<longrightarrow> test qb d = Inr b \<longrightarrow>
                test qor d = Inr (a \<or> b) \<and> test qnor d = Inr (\<not> (a \<or> b)))"
proof -
  let ?f = "\<lambda>obj. some_test [qa, qb] obj"
  let ?g = "\<lambda>obj. case ?f obj of Inl e \<Rightarrow> Inl e | Inr b \<Rightarrow> Inr (\<not> b)"
  have orop: "or_op (compile pf opts) s (Arr [A, B]) = Inr ?f" for s
    by (simp add: or_op_def A B del: some_test.simps)
  have c_or: "compile pf opts (Obj [(''$or'', Arr [A, B])]) = Inr [?f]"
    by (simp add: compile_single_logical logical_keys_def processOperator_or [OF or_builtin global] orop
        del: some_test.simps)
  have c_nor: "compile pf opts (Obj [(''$nor'', Arr [A, B])]) = Inr [?g]"
    by (simp add: compile_single_logical logical_keys_def processOperator_nor [OF nor_builtin global]
        nor_op_def orop isArray_def del: some_test.simps)
  have t_or: "test [?f] d = (case test qa d of Inl e \<Rightarrow> Inl e | Inr a \<Rightarrow> if a then Inr True else test qb d)" for d
    by (simp add: test_single split: sum.splits)
  have t_nor: "test [?g] d = (case test [?f] d of Inl e \<Rightarrow> Inl e | Inr b \<Rightarrow> Inr (\<not> b))" for d
    by (simp only: test_single)
  have both: "test [?f] d = Inr (a \<or> b) \<and> test [?g] d = Inr (\<not> (a \<or> b))"
    if "test qa d = Inr a" "test qb d = Inr b" for d a b
    using that by (simp add: t_nor t_or)
  from c_or c_nor t_or t_nor both show ?thesis by blast
qed

lemma ex_A:
  "\<exists>qa. compile plain_platform default_options (Obj [(''a'', Num 1)]) = Inr qa
        \<and> test qa (Obj [(''a'', Num 1)]) = Inr True"
  by (subst compile.simps) (simp add: query_eval resolve_eval pred_eval)

lemma ex_B:
  "\<exists>qb. compile plain_platform default_options (Obj [(''b'', Obj [(''$gt'', Num 5)])]) = Inr qb
        \<and> test qb (Obj [(''a'', Num 1)]) = Inr False"
  by (subst compile.simps) (simp add: query_eval resolve_eval pred_eval)

theorem or_nor_queries_witness:
  "\<exists>qor qnor.
      compile plain_platform default_options
        (Obj [(''$or'', Arr [Obj [(''a'', Num 1)], Obj [(''b'', Obj [(''$gt'', Num 5)])]])]) = Inr qor
    \<and> compile plain_platform default_options
        (Obj [(''$nor'', Arr [Obj [(''a'', Num 1)], Obj [(''b'', Obj [(''$gt'', Num 5)])]])]) = Inr qnor
    \<and> test qor (Obj [(''a'', Num 1)]) = Inr True
    \<and> test qnor (Obj [(''a'', Num 1)]) = Inr False"
proof -
  from ex_A obtain qa where A: "compile plain_platform default_options (Obj [(''a'', Num 1)]) = Inr qa"
    and ta: "test qa (Obj [(''a'', Num 1)]) = Inr True" by blast
  from ex_B obtain qb
    where B: "compile plain_platform default_options (Obj [(''b'', Obj [(''$gt'', Num 5)])]) = Inr qb"
    and tb: "test qb (Obj [(''a'', Num 1)]) = Inr False" by blast
  have h1: "context_query_ops default_options ''$or'' = None"
    and h2: "context_query_ops default_options ''$nor'' = None"
    and h3: "useGlobalContext default_options"
    by (simp_all add: default_options_def)
  from or_nor_queries [OF h1 h2 h3 A B] ta tb show ?thesis
    by fastforce
qed

text \<open>
  Claim C5 at a failing input: the filter \<^verbatim>\<open>{$where: f, a: 1}\<close>.  The claim asks for the
  \<^verbatim>\<open>$where\<close> predicate once, behind the one for \<^verbatim>\<open>a\<close>.  The test of
  \<^verbatim>\<open>whereOperator.field\<close> stands inside the loop over the keys, so the clause is compiled
  at the end of every round from its own key on: the compiled list is the \<^verbatim>\<open>$where\<close>
  predicate, the predicate for \<^verbatim>\<open>a\<close>, and the \<^verbatim>\<open>$where\<close> predicate again.
\<close>

theorem where_compiled_twice:
  "\<exists>w e. where_op pf default_options ''$where'' (Fun f) = Inr w
        \<and> createQueryOperator pf (eq_pred pf) ''a'' (Num 1) = Inr e
        \<and> compile pf default_options (Obj [(''$where'', Fun f), (''a'', Num 1)]) = Inr [w, e, w]"
  by (subst compile.simps) (simp add: query_eval where_op_def)

lemma remove_loop_filter:
  "\<forall>d \<in> set docs. \<exists>b. test q d = Inr b
     \<Longrightarrow> remove_loop q docs acc = Inr (acc @ filter (\<lambda>d. test q d = Inr False) docs)"
  by (induction docs arbitrary: acc) auto

text \<open>
  Claim C10.  For every array of documents in the store and every query that compiles
  and tests each of the documents without error, \<^verbatim>\<open>remove\<close> of the \<^verbatim>\<open>Collection\<close>
  facade returns a new array that holds exactly the documents the query does not match,
  in their order; the input array is a different array and is as before (and so is every
  other array of the store); the facade's field refers to the new array afterwards.
\<close>

theorem remove_keeps_input_array:
  assumes q: "compile pf default_options criteria = Inr q"
    and docs: "arrays st a = Some docs"
    and total: "\<forall>d \<in> set docs. \<exists>b. test q d = Inr b"
    and fresh: "\<forall>b \<ge> next_free st. arrays st b = None"
  shows "\<exists>new st'.
           Collection_remove pf st \<lparr>collection = a\<rparr> criteria = Inr (new, st', \<lparr>collection = new\<rparr>)
         \<and> arrays st' new = Some (filter (\<lambda>d. test q d = Inr False) docs)
         \<and> new \<noteq> a
         \<and> arrays st' a = Some docs
         \<and> (\<forall>b. b \<noteq> new \<longrightarrow> arrays st' b = arrays st b)"
proof -
  let ?new = "next_free st"
  let ?res = "filter (\<lambda>d. test q d = Inr False) docs"
  let ?st' = "st\<lparr>arrays := (arrays st)(?new \<mapsto> ?res), next_free := Suc ?new\<rparr>"
  from fresh docs have ne: "?new \<noteq> a" by auto
  have "remove_loop q docs [] = Inr ?res"
    using remove_loop_filter [OF total, of "[]"] by simp
  then have "Collection_remove pf st \<lparr>collection = a\<rparr> criteria = Inr (?new, ?st', \<lparr>collection = ?new\<rparr>)"
    by (simp add: Collection_remove_def facade_remove_def mingo_remove_def Query_remove_def q docs)
  moreover have "arrays ?st' ?new = Some ?res" by simp
  moreover have "arrays ?st' a = Some docs" using ne docs by simp
  moreover have "\<forall>b. b \<noteq> ?new \<longrightarrow> arrays ?st' b = arrays st b" by simp
  ultimately show ?thesis using ne by blast
qed

lemma ex_C:
  "\<exists>q. compile plain_platform default_options (Obj [(''a'', Num 1)]) = Inr q
        \<and> (\<forall>d \<in> set three_documents. \<exists>b. test q d = Inr b)
        \<and> filter (\<lambda>d. test q d = Inr False) three_documents
            = [Obj [(''a'', Num 2), (''b'', Num 2)], Obj [(''a'', Num 3), (''b'', Num 4)]]"
  by (subst compile.simps) (auto simp: query_eval resolve_eval pred_eval three_documents_def)

theorem remove_keeps_input_array_witness:
  "\<exists>new st'.
     Collection_remove plain_platform store_of_three \<lparr>collection = 0\<rparr> (Obj [(''a'', Num 1)])
       = Inr (new, st', \<lparr>collection = new\<rparr>)
   \<and> arrays st' new = Some [Obj [(''a'', Num 2), (''b'', Num 2)], Obj [(''a'', Num 3), (''b'', Num 4)]]
   \<and> arrays st' 0 = Some three_documents"
proof -
  from ex_C obtain q where q: "compile plain_platform default_options (Obj [(''a'', Num 1)]) = Inr q"
    and total: "\<forall>d \<in> set three_documents. \<exists>b. test q d = Inr b"
    and res: "filter (\<lambda>d. test q d = Inr False) three_documents
            = [Obj [(''a'', Num 2), (''b'', Num 2)], Obj [(''a'', Num 3), (''b'', Num 4)]]"
    by blast
  have docs: "arrays store_of_three 0 = Some three_documents"
    and fresh: "\<forall>b \<ge> next_free store_of_three. arrays store_of_three b = None"
    by (simp_all add: store_of_three_def)
  from remove_keeps_input_array [OF q docs total fresh] res show ?thesis
    by fastforce
qed

section \<open>Evaluation of expressions\<close>

text \<open>
  Writing an own property: a key the object has keeps its place; a new key that is an
  array index goes before the keys that are not and among the other indices in ascending
  order, as JavaScript enumerates them; any other new key goes to the end.
\<close>

fun insert_index :: "nat \<Rightarrow> string \<Rightarrow> val \<Rightarrow> (string \<times> val) list \<Rightarrow> (string \<times> val) list" where
  "insert_index i k v [] = [(k, v)]"
| "insert_index i k v ((k', v') # es) =
     (case canonical_index k' of
        Some j \<Rightarrow> if j < i then (k', v') # insert_index i k v es else (k, v) # (k', v') # es
      | None \<Rightarrow> (k, v) # (k', v') # es)"

fun obj_replace :: "(string \<times> val) list \<Rightarrow> string \<Rightarrow> val \<Rightarrow> (string \<times> val) list" where
  "obj_replace [] k v = []"
| "obj_replace ((k', v') # es) k v = (if k' = k then (k, v) # es else (k', v') # obj_replace es k v)"

definition obj_set :: "(string \<times> val) list \<Rightarrow> string \<Rightarrow> val \<Rightarrow> (string \<times> val) list" where
  "obj_set es k v =
     (if k \<in> fst ` set es then obj_replace es k v
      else (case canonical_index k of
              Some i \<Rightarrow> insert_index i k v es
            | None \<Rightarrow> es @ [(k, v)]))"

text \<open>\<^verbatim>\<open>Object.assign(target, source)\<close> on the entries.\<close>

definition obj_assign :: "(string \<times> val) list \<Rightarrow> (string \<times> val) list \<Rightarrow> (string \<times> val) list" where
  "obj_assign target source = foldl (\<lambda>t (k, v). obj_set t k v) target source"

text \<open>
  The part of \<^verbatim>\<open>ComputeOptions\<close> that changes during an evaluation: the root document and
  the local variables; and the variables of the options.  Options that are not yet a
  \<^verbatim>\<open>ComputeOptions\<close> have no root and no local variables.  \<^verbatim>\<open>ComputeOptions.init(options,
  obj)\<close> keeps a root that is not nil and takes \<^verbatim>\<open>obj\<close> otherwise.
\<close>

record scope =
  root :: val
  local_variables :: "(string \<times> val) list"
  global_variables :: "(string \<times> val) list"

definition ComputeOptions_init :: "scope \<Rightarrow> val \<Rightarrow> scope" where
  "ComputeOptions_init options obj = options\<lparr>root := (if isNil (root options) then obj else root options)\<rparr>"

text \<open>
  An expression or accumulator operator is given by its meaning: from the document (or
  array), the operand and the options to the value (or an error).  The tables are those of
  the caller's context and of the global context; \<open>now_date\<close> stands for the
  \<^verbatim>\<open>Date\<close> object that \<^verbatim>\<open>$$NOW\<close> creates.
\<close>

type_synonym operator_fn = "val \<Rightarrow> val \<Rightarrow> scope \<Rightarrow> error + val"

record eval_env =
  expression_context :: "string \<rightharpoonup> operator_fn"
  accumulator_context :: "string \<rightharpoonup> operator_fn"
  expression_global :: "string \<rightharpoonup> operator_fn"
  accumulator_global :: "string \<rightharpoonup> operator_fn"
  use_global :: bool
  now_date :: val

definition getOperator_expression :: "eval_env \<Rightarrow> string \<Rightarrow> operator_fn option" where
  "getOperator_expression env operator =
     (let fn = expression_context env operator in
      if fn = None \<and> use_global env then expression_global env operator else fn)"

definition getOperator_accumulator :: "eval_env \<Rightarrow> string \<Rightarrow> operator_fn option" where
  "getOperator_accumulator env operator =
     (let fn = accumulator_context env operator in
      if fn = None \<and> use_global env then accumulator_global env operator else fn)"

definition redactVariables :: "string list" where
  "redactVariables = [''$$KEEP'', ''$$PRUNE'', ''$$DESCEND'']"

definition systemVariable :: "eval_env \<Rightarrow> string \<Rightarrow> val \<Rightarrow> scope \<Rightarrow> val option" where
  "systemVariable env name obj options =
     (if name = ''$$ROOT'' then Some (root options)
      else if name = ''$$CURRENT'' then Some obj
      else if name = ''$$REMOVE'' then Some Undefined
      else if name = ''$$NOW'' then Some (now_date env)
      else None)"

text \<open>
  The branch of \<^verbatim>\<open>computeValue\<close> for a string that begins with \<^verbatim>\<open>$\<close>: a variable or a
  path into the root document.
\<close>

definition computePath :: "platform \<Rightarrow> eval_env \<Rightarrow> scope \<Rightarrow> val \<Rightarrow> string \<Rightarrow> error + val" where
  "computePath pf env copts obj expr =
     (if expr \<in> set redactVariables then Inr (Str expr)
      else let arr0 = hd (split_dot expr) in
        (case systemVariable env arr0 obj copts of
           Some ctx \<Rightarrow>
             (let expr' = drop (length arr0 + 1) expr in
              if expr' = [] then Inr ctx else resolve pf ctx expr' False)
         | None \<Rightarrow>
             if take 2 arr0 = ''$$'' then
               (let ctx = obj_assign (obj_assign (obj_assign [] (global_variables copts)) [(''this'', obj)])
                            (local_variables copts);
                    prefix = drop 2 arr0 in
                if map_of ctx prefix = None then Inl (UndefinedVariable prefix)
                else (let expr' = drop 2 expr in
                      if expr' = [] then Inr (Obj ctx) else resolve pf (Obj ctx) expr' False))
             else (let expr' = drop 1 expr in
                   if expr' = [] then Inr (root copts) else resolve pf (root copts) expr' False)))"

text \<open>
  \<^verbatim>\<open>computeValue(obj, expr, operator, options)\<close>.  The operator is \<open>[]\<close> when the caller
  passes \<^verbatim>\<open>null\<close>.  \<open>computeArray\<close> is the \<^verbatim>\<open>map\<close> over an array expression;
  \<open>computeObject\<close> is the loop over the entries of a mapping, with the number of keys of
  the mapping and the \<^verbatim>\<open>result\<close> built so far.
\<close>

function computeValue ::
    "platform \<Rightarrow> eval_env \<Rightarrow> scope \<Rightarrow> val \<Rightarrow> val \<Rightarrow> string \<Rightarrow> error + val"
  and computeArray ::
    "platform \<Rightarrow> eval_env \<Rightarrow> scope \<Rightarrow> val \<Rightarrow> val list \<Rightarrow> error + val list"
  and computeObject ::
    "platform \<Rightarrow> eval_env \<Rightarrow> scope \<Rightarrow> val \<Rightarrow> nat \<Rightarrow> (string \<times> val) list \<Rightarrow> (string \<times> val) list
       \<Rightarrow> error + val" where
  "computeValue pf env options obj expr operator =
     (let copts = ComputeOptions_init options obj in
      if isOperator operator then
        (case getOperator_expression env operator of
           Some callExpression \<Rightarrow> callExpression obj expr copts
         | None \<Rightarrow>
             (case getOperator_accumulator env operator of
                Some callAccumulator \<Rightarrow>
                  (if \<not> isArray obj then
                     (case computeValue pf env copts obj expr [] of
                        Inl e \<Rightarrow> Inl e
                      | Inr obj' \<Rightarrow>
                          if \<not> isArray obj' then Inl (TargetMustBeArray operator)
                          else callAccumulator obj' Null (copts\<lparr>root := Null\<rparr>))
                   else callAccumulator obj expr (copts\<lparr>root := Null\<rparr>))
              | None \<Rightarrow> Inl (OperatorNotRegistered operator)))
      else (case expr of
              Str s \<Rightarrow>
                if s \<noteq> [] \<and> hd s = CHR ''$'' then computePath pf env copts obj s else Inr expr
            | Arr items \<Rightarrow>
                (case computeArray pf env copts obj items of
                   Inl e \<Rightarrow> Inl e
                 | Inr vs \<Rightarrow> Inr (Arr vs))
            | Obj es \<Rightarrow> computeObject pf env copts obj (length es) es []
            | _ \<Rightarrow> Inr expr))"
| "computeArray pf env copts obj [] = Inr []"
| "computeArray pf env copts obj (item # items) =
     (case computeValue pf env copts obj item [] of
        Inl e \<Rightarrow> Inl e
      | Inr v \<Rightarrow>
          (case computeArray pf env copts obj items of
             Inl e \<Rightarrow> Inl e
           | Inr vs \<Rightarrow> Inr (v # vs)))"
| "computeObject pf env copts obj n [] result = Inr (Obj result)"
| "computeObject pf env copts obj n ((key, v) # rest) result =
     (case computeValue pf env copts obj v key of
        Inl e \<Rightarrow> Inl e
      | Inr r \<Rightarrow>
          if getOperator_expression env key \<noteq> None \<or> getOperator_accumulator env key \<noteq> None
          then (if n \<noteq> 1 then Inl InvalidAggregationExpression else Inr r)
          else computeObject pf env copts obj n rest (obj_set result key r))"
  by pat_completeness auto
termination
  apply (relation "measures [\<lambda>x. case x of Inl (pf, env, sc, obj, expr, operator) \<Rightarrow> size expr
                                         | Inr (Inl (pf, env, sc, obj, items)) \<Rightarrow> size_list size items
                                         | Inr (Inr (pf, env, sc, obj, n, es, res)) \<Rightarrow> size_list (size_prod (\<lambda>_. 0) size) es,
                              \<lambda>x. case x of Inl (pf, env, sc, obj, expr, operator) \<Rightarrow> (if isOperator operator then 1 else 0)
                                         | _ \<Rightarrow> 0]")
  apply (auto simp: isOperator_def)
  done

declare computeValue.simps [simp del]

text \<open>A key of a mapping is a registered expression or accumulator operator.\<close>

definition registered :: "eval_env \<Rightarrow> string \<Rightarrow> bool" where
  "registered env key \<longleftrightarrow>
     getOperator_expression env key \<noteq> None \<or> getOperator_accumulator env key \<noteq> None"

text \<open>For concrete runs: one expression operator, which returns its operand.\<close>

definition echo_env :: eval_env where
  "echo_env =
     \<lparr>expression_context = Map.empty, accumulator_context = Map.empty,
      expression_global = [''$literal'' \<mapsto> (\<lambda>obj expr options. Inr expr)],
      accumulator_global = Map.empty, use_global = True, now_date = Null\<rparr>"

definition empty_scope :: scope where
  "empty_scope = \<lparr>root = Undefined, local_variables = [], global_variables = []\<rparr>"

subsection \<open>Properties of the evaluation\<close>

lemma ComputeOptions_init_idem:
  "ComputeOptions_init (ComputeOptions_init options obj) obj = ComputeOptions_init options obj"
  by (simp add: ComputeOptions_init_def)

lemma computeValue_mapping:
  "computeValue pf env options obj (Obj es) [] =
     computeObject pf env (ComputeOptions_init options obj) obj (length es) es []"
  by (subst computeValue.simps) (simp add: isOperator_def)

lemma computeValue_expression_operator:
  assumes "isOperator operator" and "getOperator_expression env operator = Some f"
  shows "computeValue pf env options obj expr operator = f obj expr (ComputeOptions_init options obj)"
  using assms by (subst computeValue.simps) simp

lemma computeObject_many_keys:
  assumes "registered env k" and "k \<in> fst ` set es" and "n \<noteq> 1"
  shows "\<exists>e. computeObject pf env copts obj n es result = Inl e"
  using assms(2)
proof (induction es arbitrary: result)
  case Nil
  then show ?case by simp
next
  case (Cons a es)
  obtain key v where a: "a = (key, v)" by (cases a)
  show ?case
  proof (cases "computeValue pf env copts obj v key")
    case (Inl e)
    then show ?thesis by (simp add: a)
  next
    case (Inr r)
    show ?thesis
    proof (cases "registered env key")
      case True
      with Inr assms(3) show ?thesis
        by (simp add: a registered_def)
    next
      case False
      with assms(1) have "key \<noteq> k" by auto
      with Cons.prems a have "k \<in> fst ` set es" by auto
      from Cons.IH [OF this] False Inr show ?thesis
        by (simp add: a registered_def)
    qed
  qed
qed

lemma computeObject_one_key:
  assumes "registered env k"
  shows "computeObject pf env copts obj (Suc 0) [(k, v)] [] = computeValue pf env copts obj v k"
  using assms by (cases "computeValue pf env copts obj v k") (auto simp: registered_def)



section \<open>Walking a path to change a document\<close>

text \<open>
  The code changes documents in place.  The model returns the changed value: a function
  that assigns to \<^verbatim>\<open>o[k]\<close> returns the new \<^verbatim>\<open>o\<close>, and the caller puts it back where it
  read \<^verbatim>\<open>o\<close> from.

  The assignment \<^verbatim>\<open>o[k] = v\<close>.  The bundle is in strict mode, where assigning a property
  of a primitive value is a \<^verbatim>\<open>TypeError\<close>, as it is for \<^verbatim>\<open>null\<close> and \<^verbatim>\<open>undefined\<close>.
  Writing an element past the end of an array fills the gap with \<^verbatim>\<open>undefined\<close> (the
  model has no holes).  Two assignments leave the values of the model, because the code
  does not throw but the result is an array, function or regular expression with a named
  property: they end the run with \<open>OutsideModel\<close>, which is not an error of the code.
\<close>

definition js_assign :: "val \<Rightarrow> string \<Rightarrow> val \<Rightarrow> error + val" where
  "js_assign obj key v =
     (case obj of
        Obj es \<Rightarrow> Inr (Obj (obj_set es key v))
      | Arr xs \<Rightarrow>
          (case canonical_index key of
             Some i \<Rightarrow>
               if i < length xs then Inr (Arr (xs[i := v]))
               else Inr (Arr (xs @ replicate (i - length xs) Undefined @ [v]))
           | None \<Rightarrow> Inl OutsideModel)
      | Fun _ \<Rightarrow> Inl OutsideModel
      | RegExp _ _ \<Rightarrow> Inl OutsideModel
      | _ \<Rightarrow> Inl TypeError)"

text \<open>
  After a callee has changed \<open>item\<close>, which the caller read from \<^verbatim>\<open>obj[key]\<close>: the
  container with the changed item in its place.  A primitive item is a copy and a
  primitive container has nothing to change.
\<close>

definition put_back :: "val \<Rightarrow> string \<Rightarrow> val \<Rightarrow> val" where
  "put_back obj key item =
     (case obj of
        Obj es \<Rightarrow> Obj (obj_set es key item)
      | Arr xs \<Rightarrow>
          (case canonical_index key of
             Some i \<Rightarrow> if i < length xs then Arr (xs[i := item]) else obj
           | None \<Rightarrow> obj)
      | _ \<Rightarrow> obj)"

text \<open>The options of \<^verbatim>\<open>walk\<close>.\<close>

record walk_options =
  buildGraph :: bool
  descendArray :: bool

text \<open>
  \<^verbatim>\<open>walk(obj, selector, fn, options)\<close> on the list of names of the selector.  The code
  joins the names after the first and splits them again in the recursive call
  (\<open>split_dot_join_dot\<close>).  The callback gets the container and the key, and the state
  \<open>s\<close> of the variables it closes over; it returns the container after its assignments.
  \<open>walk_each\<close> is \<^verbatim>\<open>item.forEach(e => walk(e, next, fn, options))\<close>.
\<close>

fun join_dot :: "string list \<Rightarrow> string" where
  "join_dot [] = []"
| "join_dot [n] = n"
| "join_dot (n # m # ns) = n @ CHR ''.'' # join_dot (m # ns)"

fun walk ::
    "platform \<Rightarrow> (val \<Rightarrow> string \<Rightarrow> 's \<Rightarrow> error + val \<times> 's) \<Rightarrow> walk_options \<Rightarrow> val \<Rightarrow> string list
       \<Rightarrow> 's \<Rightarrow> error + val \<times> 's"
  and walk_each ::
    "platform \<Rightarrow> (val \<Rightarrow> string \<Rightarrow> 's \<Rightarrow> error + val \<times> 's) \<Rightarrow> walk_options \<Rightarrow> val list \<Rightarrow> string list
       \<Rightarrow> 's \<Rightarrow> error + val list \<times> 's" where
  "walk pf fn options obj [] s = Inr (obj, s)"
| "walk pf fn options obj [key] s =
     (if isObject obj \<or> (isArray obj \<and> is_numeric key) then fn obj key s else Inr (obj, s))"
| "walk pf fn options obj (key # name1 # names) s =
     (case js_member pf obj key of
        Inl e \<Rightarrow> Inl e
      | Inr cur \<Rightarrow>
          (case (if buildGraph options \<and> isNil cur then js_assign obj key (Obj []) else Inr obj) of
             Inl e \<Rightarrow> Inl e
           | Inr obj1 \<Rightarrow>
               (case js_member pf obj1 key of
                  Inl e \<Rightarrow> Inl e
                | Inr item \<Rightarrow>
                    if \<not> js_truthy item then Inr (obj1, s)
                    else (case item of
                            Arr elems \<Rightarrow>
                              if descendArray options \<and> \<not> is_numeric name1 then
                                (case walk_each pf fn options elems (name1 # names) s of
                                   Inl e \<Rightarrow> Inl e
                                 | Inr (elems', s') \<Rightarrow> Inr (put_back obj1 key (Arr elems'), s'))
                              else
                                (case walk pf fn options item (name1 # names) s of
                                   Inl e \<Rightarrow> Inl e
                                 | Inr (item', s') \<Rightarrow> Inr (put_back obj1 key item', s'))
                          | _ \<Rightarrow>
                              (case walk pf fn options item (name1 # names) s of
                                 Inl e \<Rightarrow> Inl e
                               | Inr (item', s') \<Rightarrow> Inr (put_back obj1 key item', s'))))))"
| "walk_each pf fn options [] names s = Inr ([], s)"
| "walk_each pf fn options (e # es) names s =
     (case walk pf fn options e names s of
        Inl err \<Rightarrow> Inl err
      | Inr (e', s') \<Rightarrow>
          (case walk_each pf fn options es names s' of
             Inl err \<Rightarrow> Inl err
           | Inr (es', s'') \<Rightarrow> Inr (e' # es', s'')))"

definition walk_selector ::
  "platform \<Rightarrow> (val \<Rightarrow> string \<Rightarrow> 's \<Rightarrow> error + val \<times> 's) \<Rightarrow> walk_options \<Rightarrow> val \<Rightarrow> string
     \<Rightarrow> 's \<Rightarrow> error + val \<times> 's" where
  "walk_selector pf fn options obj selector s = walk pf fn options obj (split_dot selector) s"

section \<open>Update expressions\<close>

text \<open>
  String functions of JavaScript: \<^verbatim>\<open>indexOf\<close> (\<open>- 1\<close> when the pattern does not occur),
  \<^verbatim>\<open>substring(start, end)\<close>, which clamps its arguments into the string and swaps them
  when the first is the larger, and \<^verbatim>\<open>substring(start)\<close>.
\<close>

fun indexOf_from :: "string \<Rightarrow> string \<Rightarrow> int \<Rightarrow> int" where
  "indexOf_from [] pat i = (if pat = [] then i else - 1)"
| "indexOf_from (c # cs) pat i =
     (if take (length pat) (c # cs) = pat then i else indexOf_from cs pat (i + 1))"

definition indexOf :: "string \<Rightarrow> string \<Rightarrow> int" where
  "indexOf s pat = indexOf_from s pat 0"

definition clamp_index :: "string \<Rightarrow> int \<Rightarrow> nat" where
  "clamp_index s i = (if i < 0 then 0 else min (nat i) (length s))"

definition substring :: "string \<Rightarrow> int \<Rightarrow> int \<Rightarrow> string" where
  "substring s start end =
     (let a = clamp_index s start; b = clamp_index s end in
      take (max a b - min a b) (drop (min a b) s))"

definition substring_from :: "string \<Rightarrow> int \<Rightarrow> string" where
  "substring_from s start = drop (clamp_index s start) s"

text \<open>\<^verbatim>\<open>FILTER_IDENT_RE = /^[a-z]+[a-zA-Z0-9]*$/\<close>.\<close>

definition filter_ident :: "string \<Rightarrow> bool" where
  "filter_ident s = (case s of [] \<Rightarrow> False | c # cs \<Rightarrow> is_lower c \<and> list_all is_alnum cs)"

text \<open>
  The node \<^verbatim>\<open>tokenizePath\<close> returns: without array-filter syntax the selector itself
  (\<^verbatim>\<open>parent\<close> is the selector, no \<^verbatim>\<open>child\<close>), otherwise the selector, the path
  \<^verbatim>\<open>parent\<close> before the placeholder, the identifier \<^verbatim>\<open>child\<close> (\<^verbatim>\<open>$\<close> for an empty
  one) and the node \<^verbatim>\<open>next\<close> of the rest, if there is a rest.
\<close>

datatype node =
    Leaf string
  | Placeholder string string string "node option"

fun node_parent :: "node \<Rightarrow> string" where
  "node_parent (Leaf selector) = selector"
| "node_parent (Placeholder selector parent child nxt) = parent"

function tokenizePath :: "string \<Rightarrow> error + node \<times> string list" where
  "tokenizePath selector =
     (if indexOf selector ''.$'' < 0 then Inr (Leaf selector, [])
      else
        (let begin = indexOf selector ''.$'';
             end = indexOf selector '']'';
             parent = substring selector 0 begin;
             child = substring selector (begin + 3) end
         in if \<not> (child = [] \<or> filter_ident child) then Inl InvalidFilterIdentifier
            else
              (let rest = substring_from selector (end + 2) in
               if rest \<noteq> [] then
                 (case tokenizePath rest of
                    Inl e \<Rightarrow> Inl e
                  | Inr (nxt, elems) \<Rightarrow>
                      Inr (Placeholder selector parent (if child = [] then ''$'' else child) (Some nxt),
                           filter (\<lambda>w. w \<noteq> []) (child # elems)))
               else
                 Inr (Placeholder selector parent (if child = [] then ''$'' else child) None,
                      filter (\<lambda>w. w \<noteq> []) [child]))))"
  by pat_completeness auto

lemma indexOf_from_ge: "i \<le> indexOf_from s pat i \<or> indexOf_from s pat i = - 1"
  by (induction s pat i rule: indexOf_from.induct) auto

lemma indexOf_ge: "- 1 \<le> indexOf s pat"
  using indexOf_from_ge [of 0 s pat] by (auto simp: indexOf_def)

termination tokenizePath
proof (relation "measure length")
  show "wf (measure length)" by simp
next
  fix selector :: string and x xa xb xc xd
  assume "xa = indexOf selector '']''" and "xd = substring_from selector (xa + 2)" and "xd \<noteq> []"
  moreover have "- 1 \<le> indexOf selector '']''" by (rule indexOf_ge)
  ultimately show "(xd, selector) \<in> measure length"
    by (auto simp: substring_from_def clamp_index_def split: if_splits)
qed

text \<open>
  \<^verbatim>\<open>Object.entries(v)\<close>: the own enumerable properties; (\<^verbatim>\<open>null\<close> and \<^verbatim>\<open>undefined\<close> have
  none to list: \<^verbatim>\<open>TypeError\<close>).
\<close>

definition object_entries :: "val \<Rightarrow> error + (string \<times> val) list" where
  "object_entries v =
     (case v of
        Undefined \<Rightarrow> Inl TypeError
      | Null \<Rightarrow> Inl TypeError
      | Obj es \<Rightarrow> Inr es
      | Arr xs \<Rightarrow> Inr (map (\<lambda>i. (show_nat i, xs ! i)) [0 ..< length xs])
      | Str s \<Rightarrow> Inr (map (\<lambda>i. (show_nat i, Str [s ! i])) [0 ..< length s])
      | _ \<Rightarrow> Inr [])"

text \<open>
  The value at a path of names read one after the other with \<open>getValue\<close>, and the
  document with a new value at such a path.
\<close>

fun get_path :: "val \<Rightarrow> string list \<Rightarrow> val" where
  "get_path obj [] = obj"
| "get_path obj (key # names) = get_path (getValue obj key) names"

fun put_path :: "val \<Rightarrow> string list \<Rightarrow> val \<Rightarrow> val" where
  "put_path obj [] v = v"
| "put_path obj (key # names) v = put_back obj key (put_path (getValue obj key) names v)"

text \<open>
  An update function \<^verbatim>\<open>(o, k) => ...\<close> assigns to \<^verbatim>\<open>o[k]\<close> and returns whether it
  changed something: the model returns the container after the assignments and the
  truth value of the result.  The compiled queries of the filter identifiers are an
  association list.
\<close>

type_synonym mutator = "val \<Rightarrow> string \<Rightarrow> error + val \<times> bool"

type_synonym identifier_queries = "(string \<times> predicate list) list"

text \<open>
  \<^verbatim>\<open>applyUpdate(o, n, q, f, opts)\<close>.  At a node without placeholder the update function
  runs where \<^verbatim>\<open>walk\<close> takes it, behind the wrapper \<^verbatim>\<open>g\<close>, which collects the results in
  \<^verbatim>\<open>b\<close>.  At a placeholder, \<^verbatim>\<open>resolve(o, parent)\<close> gives the array \<^verbatim>\<open>t\<close>;
  \<open>apply_elements\<close> is the \<^verbatim>\<open>map\<close> over its indices: an element that the query of the
  identifier rejects gives \<^verbatim>\<open>false\<close>, any other one the result of \<^verbatim>\<open>applyUpdate\<close> at the
  next node, or of the update function on \<^verbatim>\<open>t\<close> and the index when there is none.

  When \<^verbatim>\<open>resolve\<close> reads the parent path name by name (its counter \<^verbatim>\<open>depth\<close> stays 0),
  \<^verbatim>\<open>t\<close> is the array of the document at that path, and the changes are changes of the
  document.  Otherwise \<^verbatim>\<open>t\<close> is an array that \<^verbatim>\<open>resolve\<close> made from the elements of
  other arrays; if the update changed anything then, the run ends with \<open>OutsideModel\<close>.
\<close>

fun applyUpdate ::
    "platform \<Rightarrow> val \<Rightarrow> node \<Rightarrow> identifier_queries \<Rightarrow> mutator \<Rightarrow> walk_options \<Rightarrow> error + val \<times> bool"
  and apply_elements ::
    "platform \<Rightarrow> val list \<Rightarrow> nat list \<Rightarrow> string \<Rightarrow> node option \<Rightarrow> identifier_queries \<Rightarrow> mutator
       \<Rightarrow> walk_options \<Rightarrow> error + val list \<times> bool" where
  "applyUpdate pf obj (Leaf selector) q f opts =
     walk_selector pf
       (\<lambda>u k b. case f u k of Inl e \<Rightarrow> Inl e | Inr (u', r) \<Rightarrow> Inr (u', r \<or> b))
       opts obj selector False"
| "applyUpdate pf obj (Placeholder selector parent c nxt) q f opts =
     (case resolve_with_depth obj parent of
        (t, depth) \<Rightarrow>
          (case t of
             Arr elems \<Rightarrow>
               (case apply_elements pf elems [0 ..< length elems] c nxt q f opts of
                  Inl e \<Rightarrow> Inl e
                | Inr (elems', changed) \<Rightarrow>
                    if depth = 0 then Inr (put_path obj (split_dot parent) (Arr elems'), changed)
                    else if elems' = elems then Inr (obj, changed)
                    else Inl OutsideModel)
           | _ \<Rightarrow> Inr (obj, False)))"
| "apply_elements pf t [] c nxt q f opts = Inr (t, False)"
| "apply_elements pf t (i # indices) c nxt q f opts =
     (let e = (if i < length t then t ! i else Undefined) in
      case (case map_of q c of
              None \<Rightarrow> Inr True
            | Some query \<Rightarrow> test query (Obj [(c, e)])) of
        Inl err \<Rightarrow> Inl err
      | Inr pass \<Rightarrow>
          if \<not> pass then apply_elements pf t indices c nxt q f opts
          else
            (case (case nxt of
                     Some n \<Rightarrow>
                       (case applyUpdate pf e n q f opts of
                          Inl err \<Rightarrow> Inl err
                        | Inr (e', r) \<Rightarrow> Inr (t[i := e'], r))
                   | None \<Rightarrow>
                       (case f (Arr t) (show_nat i) of
                          Inl err \<Rightarrow> Inl err
                        | Inr (t', r) \<Rightarrow> Inr (case t' of Arr xs \<Rightarrow> xs | _ \<Rightarrow> t, r))) of
               Inl err \<Rightarrow> Inl err
             | Inr (t1, r) \<Rightarrow>
                 (case apply_elements pf t1 indices c nxt q f opts of
                    Inl err \<Rightarrow> Inl err
                  | Inr (t2, rs) \<Rightarrow> Inr (t2, r \<or> rs))))"

text \<open>
  \<^verbatim>\<open>walkExpression(expr, arrayFilter, options, callback)\<close>.  First the conditions of
  each identifier: every key \<^verbatim>\<open>k\<close> of every filter document that is the identifier
  \<^verbatim>\<open>w\<close> or begins with \<^verbatim>\<open>w + "."\<close> goes, with its value, into \<^verbatim>\<open>conditions[w]\<close>.
\<close>

definition starts_with :: "string \<Rightarrow> string \<Rightarrow> bool" where
  "starts_with s prefix \<longleftrightarrow> take (length prefix) s = prefix"

definition add_condition :: "(string \<times> val) list \<Rightarrow> string \<Rightarrow> string \<Rightarrow> val \<Rightarrow> (string \<times> val) list" where
  "add_condition conditions w k v =
     obj_set conditions w
       (Obj (obj_set (case obj_get conditions w of Obj es \<Rightarrow> es | _ \<Rightarrow> []) k v))"

definition conditions_of_key ::
  "string list \<Rightarrow> (string \<times> val) list \<Rightarrow> string \<times> val \<Rightarrow> (string \<times> val) list" where
  "conditions_of_key vars conditions kv =
     foldl (\<lambda>cs w. if fst kv = w \<or> starts_with (fst kv) (w @ ''.'') then add_condition cs w (fst kv) (snd kv)
                    else cs)
       conditions vars"

fun conditions_of_filters ::
  "string list \<Rightarrow> val list \<Rightarrow> (string \<times> val) list \<Rightarrow> error + (string \<times> val) list" where
  "conditions_of_filters vars [] conditions = Inr conditions"
| "conditions_of_filters vars (u # filters) conditions =
     (case object_entries u of
        Inl e \<Rightarrow> Inl e
      | Inr kvs \<Rightarrow> conditions_of_filters vars filters (foldl (conditions_of_key vars) conditions kvs))"

text \<open>The queries of the identifiers: \<^verbatim>\<open>new Query(condition, options.queryOptions)\<close>.\<close>

fun queries_of_conditions ::
  "platform \<Rightarrow> qoptions \<Rightarrow> (string \<times> val) list \<Rightarrow> error + identifier_queries" where
  "queries_of_conditions pf qopts [] = Inr []"
| "queries_of_conditions pf qopts ((k, condition) # rest) =
     (case compile pf qopts condition of
        Inl e \<Rightarrow> Inl e
      | Inr query \<Rightarrow>
          (case queries_of_conditions pf qopts rest of
             Inl e \<Rightarrow> Inl e
           | Inr qs \<Rightarrow> Inr ((k, query) # qs)))"

text \<open>
  The loop over the entries of the update expression.  The callback changes the
  document, so it takes and returns it; the loop collects \<^verbatim>\<open>node.parent\<close> of the entries
  for which the callback returns true.
\<close>

type_synonym update_callback = "val \<Rightarrow> node \<Rightarrow> identifier_queries \<Rightarrow> val \<Rightarrow> error + val \<times> bool"

fun walkExpression_loop ::
  "platform \<Rightarrow> qoptions \<Rightarrow> (string \<times> val) list \<Rightarrow> val list \<Rightarrow> update_callback \<Rightarrow> val \<Rightarrow> string list
     \<Rightarrow> error + string list \<times> val" where
  "walkExpression_loop pf qopts [] arrayFilter callback obj res = Inr (res, obj)"
| "walkExpression_loop pf qopts ((selector, v) # rest) arrayFilter callback obj res =
     (case tokenizePath selector of
        Inl e \<Rightarrow> Inl e
      | Inr (node, vars) \<Rightarrow>
          (case (if vars = [] then Inr []
                 else (case conditions_of_filters vars arrayFilter [] of
                         Inl e \<Rightarrow> Inl e
                       | Inr conditions \<Rightarrow> queries_of_conditions pf qopts conditions)) of
             Inl e \<Rightarrow> Inl e
           | Inr queries \<Rightarrow>
               (case callback v node queries obj of
                  Inl e \<Rightarrow> Inl e
                | Inr (obj', r) \<Rightarrow>
                    walkExpression_loop pf qopts rest arrayFilter callback obj'
                      (if r then res @ [node_parent node] else res))))"

definition walkExpression ::
  "platform \<Rightarrow> qoptions \<Rightarrow> val \<Rightarrow> val list \<Rightarrow> update_callback \<Rightarrow> val \<Rightarrow> error + string list \<times> val" where
  "walkExpression pf qopts expr arrayFilter callback obj =
     (case object_entries expr of
        Inl e \<Rightarrow> Inl e
      | Inr entries \<Rightarrow> walkExpression_loop pf qopts entries arrayFilter callback obj [])"

text \<open>
  The update operators.  Each returns the list of modified paths and the document.
  \<^verbatim>\<open>clone(options.cloneMode, val)\<close> returns a value with the contents of \<^verbatim>\<open>val\<close> in every
  mode, which for a tree of values is \<^verbatim>\<open>val\<close>.
\<close>

definition build_graph :: walk_options where
  "build_graph = \<lparr>buildGraph = True, descendArray = False\<rparr>"

definition set_mutator :: "platform \<Rightarrow> val \<Rightarrow> mutator" where
  "set_mutator pf v u k =
     (case js_member pf u k of
        Inl e \<Rightarrow> Inl e
      | Inr cur \<Rightarrow>
          if isEqual pf cur v then Inr (u, False)
          else (case js_assign u k v of Inl e \<Rightarrow> Inl e | Inr u' \<Rightarrow> Inr (u', True)))"

definition set_op :: "platform \<Rightarrow> qoptions \<Rightarrow> val \<Rightarrow> val \<Rightarrow> val list \<Rightarrow> error + string list \<times> val" where
  "set_op pf qopts obj expr arrayFilters =
     walkExpression pf qopts expr arrayFilters
       (\<lambda>v node queries doc. applyUpdate pf doc node queries (set_mutator pf v) build_graph) obj"

text \<open>\<^verbatim>\<open>a + b\<close> and \<^verbatim>\<open>a * b\<close>: on two numbers the sum and the product.\<close>

definition js_plus :: "platform \<Rightarrow> val \<Rightarrow> val \<Rightarrow> val" where
  "js_plus pf a b = (case (a, b) of (Num x, Num y) \<Rightarrow> Num (x + y) | _ \<Rightarrow> coerced_plus pf a b)"

definition js_times :: "platform \<Rightarrow> val \<Rightarrow> val \<Rightarrow> val" where
  "js_times pf a b = (case (a, b) of (Num x, Num y) \<Rightarrow> Num (x * y) | _ \<Rightarrow> coerced_times pf a b)"

definition inc_mutator :: "platform \<Rightarrow> val \<Rightarrow> mutator" where
  "inc_mutator pf v u k =
     (case js_member pf u k of
        Inl e \<Rightarrow> Inl e
      | Inr cur \<Rightarrow>
          (case (if js_truthy cur then Inr (u, cur)
                 else (case js_assign u k (Num 0) of Inl e \<Rightarrow> Inl e | Inr u0 \<Rightarrow> Inr (u0, Num 0))) of
             Inl e \<Rightarrow> Inl e
           | Inr (u1, lhs) \<Rightarrow>
               (case js_assign u1 k (js_plus pf lhs v) of
                  Inl e \<Rightarrow> Inl e
                | Inr u2 \<Rightarrow> Inr (u2, True))))"

definition inc_op :: "platform \<Rightarrow> qoptions \<Rightarrow> val \<Rightarrow> val \<Rightarrow> val list \<Rightarrow> error + string list \<times> val" where
  "inc_op pf qopts obj expr arrayFilters =
     walkExpression pf qopts expr arrayFilters
       (\<lambda>v node queries doc.
          (case (case node of
                   Leaf selector \<Rightarrow>
                     (case resolve pf doc selector False of
                        Inl e \<Rightarrow> Inl e
                      | Inr n \<Rightarrow> if n = Undefined \<or> isNumber n then Inr () else Inl IncNonNumeric)
                 | _ \<Rightarrow> Inr ()) of
             Inl e \<Rightarrow> Inl e
           | Inr _ \<Rightarrow> applyUpdate pf doc node queries (inc_mutator pf v) build_graph))
       obj"

definition mul_mutator :: "platform \<Rightarrow> val \<Rightarrow> mutator" where
  "mul_mutator pf v u k =
     (case js_member pf u k of
        Inl e \<Rightarrow> Inl e
      | Inr prev \<Rightarrow>
          (let new = (if prev = Undefined then Num 0 else js_times pf prev v) in
           case js_assign u k new of
             Inl e \<Rightarrow> Inl e
           | Inr u' \<Rightarrow> Inr (u', \<not> strict_equal new prev)))"

definition mul_op :: "platform \<Rightarrow> qoptions \<Rightarrow> val \<Rightarrow> val \<Rightarrow> val list \<Rightarrow> error + string list \<times> val" where
  "mul_op pf qopts obj expr arrayFilters =
     walkExpression pf qopts expr arrayFilters
       (\<lambda>v node queries doc. applyUpdate pf doc node queries (mul_mutator pf v) build_graph) obj"

text \<open>
  The bit operators convert their operands to 32-bit integers; the result is the signed
  value of the 32-bit word.
\<close>

definition to_int32 :: "platform \<Rightarrow> val \<Rightarrow> 32 word" where
  "to_int32 pf v = (case v of Num n \<Rightarrow> word_of_int n | _ \<Rightarrow> word_of_int (coerced_int32 pf v))"

definition bit_mutator :: "platform \<Rightarrow> string \<Rightarrow> val \<Rightarrow> mutator" where
  "bit_mutator pf op v u k =
     (case js_member pf u k of
        Inl e \<Rightarrow> Inl e
      | Inr n \<Rightarrow>
          if n \<noteq> Undefined \<and> \<not> (isNumber n \<and> isNumber v) then Inr (u, False)
          else
            (let n0 = (if js_truthy n then n else Num 0);
                 new = Num (sint (if op = ''and'' then and (to_int32 pf n0) (to_int32 pf v)
                                  else if op = ''or'' then or (to_int32 pf n0) (to_int32 pf v)
                                  else xor (to_int32 pf n0) (to_int32 pf v)))
             in case js_assign u k new of
                  Inl e \<Rightarrow> Inl e
                | Inr u' \<Rightarrow> Inr (u', \<not> strict_equal new n0)))"

definition BIT_OPS :: "string list" where
  "BIT_OPS = [''and'', ''or'', ''xor'']"

definition bit_op :: "platform \<Rightarrow> qoptions \<Rightarrow> val \<Rightarrow> val \<Rightarrow> val list \<Rightarrow> error + string list \<times> val" where
  "bit_op pf qopts obj expr arrayFilters =
     walkExpression pf qopts expr arrayFilters
       (\<lambda>v node queries doc.
          (case object_entries v of
             Inl e \<Rightarrow> Inl e
           | Inr ops \<Rightarrow>
               if \<not> (length ops = 1 \<and> fst (hd ops) \<in> set BIT_OPS) then Inl InvalidBitOperator
               else applyUpdate pf doc node queries (bit_mutator pf (fst (hd ops)) (snd (hd ops))) build_graph))
       obj"

section \<open>Paths that can be set\<close>

text \<open>
  A path that \<^verbatim>\<open>walk\<close> with \<^verbatim>\<open>buildGraph\<close> follows to a container: every name is a key of a
  mapping or the index of an array, and the value under every name but the last is
  missing or null (the walk then builds the rest) or a truthy value from which the rest of
  the path leads on in the same way.
\<close>

fun settable :: "val \<Rightarrow> string list \<Rightarrow> bool" where
  "settable obj [] = False"
| "settable obj [key] = (isObject obj \<or> (isArray obj \<and> canonical_index key \<noteq> None))"
| "settable obj (key # name1 # names) =
     ((isObject obj \<or> (isArray obj \<and> canonical_index key \<noteq> None))
      \<and> (isNil (getValue obj key) \<or> (js_truthy (getValue obj key) \<and> settable (getValue obj key) (name1 # names))))"

subsection \<open>Reading and writing properties\<close>

lemma map_of_obj_replace: "k \<in> fst ` set es \<Longrightarrow> map_of (obj_replace es k v) k = Some v"
  by (induction es) force+

lemma map_of_insert_index: "k \<notin> fst ` set es \<Longrightarrow> map_of (insert_index i k v es) k = Some v"
  by (induction es) (auto split: option.splits)

lemma obj_get_obj_set [simp]: "obj_get (obj_set es k v) k = v"
proof (cases "k \<in> fst ` set es")
  case True
  then show ?thesis by (simp add: obj_get_def obj_set_def map_of_obj_replace)
next
  case False
  then have "map_of es k = None" by (simp add: map_of_eq_None_iff)
  with False show ?thesis
    by (auto simp: obj_get_def obj_set_def map_of_insert_index split: option.splits)
qed

lemma obj_replace_same: "obj_replace es k (obj_get es k) = es"
  by (induction es) (auto simp: obj_get_def)

lemma obj_get_present: "obj_get es k \<noteq> Undefined \<Longrightarrow> k \<in> fst ` set es"
  by (force simp: obj_get_def split: option.splits dest: map_of_SomeD)

lemma obj_set_same: "obj_get es k \<noteq> Undefined \<Longrightarrow> obj_set es k (obj_get es k) = es"
  by (simp add: obj_set_def obj_get_present obj_replace_same)

lemma js_member_getValue:
  "isObject obj \<or> isArray obj \<Longrightarrow> js_member pf obj key = Inr (getValue obj key)"
  by (auto simp: js_member_def getValue_def isObject_def isArray_def split: val.splits)

lemma getValue_js_assign: "js_assign obj key v = Inr obj' \<Longrightarrow> getValue obj' key = v"
  by (auto simp: js_assign_def getValue_def nth_append split: val.splits option.splits if_splits)

lemma js_assign_container:
  "isObject obj \<or> (isArray obj \<and> canonical_index key \<noteq> None) \<Longrightarrow> \<exists>obj'. js_assign obj key v = Inr obj'"
  by (auto simp: js_assign_def isObject_def isArray_def split: val.splits)

lemma getValue_put_back:
  assumes "isObject obj \<or> (isArray obj \<and> canonical_index key \<noteq> None)" and "getValue obj key \<noteq> Undefined"
  shows "getValue (put_back obj key item) key = item"
  using assms
  by (auto simp: put_back_def getValue_def isObject_def isArray_def split: val.splits if_splits)

lemma put_back_same:
  assumes "isObject obj \<or> (isArray obj \<and> canonical_index key \<noteq> None)" and "getValue obj key \<noteq> Undefined"
  shows "put_back obj key (getValue obj key) = obj"
  using assms
  by (auto simp: put_back_def getValue_def isObject_def isArray_def obj_set_same split: val.splits if_splits)

lemma canonical_is_numeric: "canonical_index key = Some i \<Longrightarrow> is_numeric key"
  by (auto simp: canonical_index_def split: if_splits)

lemma isEqual_Undefined: "isEqual pf Undefined v \<longleftrightarrow> v = Undefined"
  by (cases v) (auto simp: isEqual_def strict_equal_def getConstructor_def)

lemma get_path_Undefined [simp]: "get_path Undefined names = Undefined"
  by (induction names) (auto simp: getValue_def)

lemma get_path_nil: "isNil v \<Longrightarrow> names \<noteq> [] \<Longrightarrow> get_path v names = Undefined"
  by (cases names) (auto simp: isNil_def getValue_def)

lemma get_path_empty_obj: "names \<noteq> [] \<Longrightarrow> get_path (Obj []) names = Undefined"
  by (cases names) (auto simp: getValue_def obj_get_def)

lemma settable_empty_obj: "names \<noteq> [] \<Longrightarrow> settable (Obj []) names"
proof (induction names)
  case Nil
  then show ?case by simp
next
  case (Cons key names)
  show ?case
    by (cases names) (auto simp: isObject_def getValue_def obj_get_def isNil_def)
qed

subsection \<open>One step of the walk\<close>

lemma js_assign_keeps_container:
  assumes "js_assign obj key v = Inr obj1" and "isObject obj \<or> (isArray obj \<and> canonical_index key \<noteq> None)"
  shows "isObject obj1 \<or> (isArray obj1 \<and> canonical_index key \<noteq> None)"
  using assms
  by (auto simp: js_assign_def isObject_def isArray_def split: val.splits option.splits if_splits)

lemma truthy_not_nil: "js_truthy v \<Longrightarrow> \<not> isNil v"
  by (auto simp: js_truthy_def isNil_def)

lemma truthy_not_Undefined: "js_truthy v \<Longrightarrow> v \<noteq> Undefined"
  by (auto simp: js_truthy_def)

lemma walk_step_build:
  assumes cont: "isObject obj \<or> (isArray obj \<and> canonical_index key \<noteq> None)"
    and nil: "isNil (getValue obj key)"
    and a: "js_assign obj key (Obj []) = Inr obj1"
  shows "walk pf fn build_graph obj (key # name1 # names) s =
           (case walk pf fn build_graph (Obj []) (name1 # names) s of
              Inl e \<Rightarrow> Inl e
            | Inr (item', s') \<Rightarrow> Inr (put_back obj1 key item', s'))"
proof -
  from cont have mem: "js_member pf obj key = Inr (getValue obj key)"
    by (auto intro: js_member_getValue)
  from js_assign_keeps_container [OF a cont] have "isObject obj1 \<or> isArray obj1" by blast
  then have "js_member pf obj1 key = Inr (getValue obj1 key)" by (rule js_member_getValue)
  then have mem1: "js_member pf obj1 key = Inr (Obj [])"
    by (simp add: getValue_js_assign [OF a])
  show ?thesis
    by (simp add: mem mem1 nil a build_graph_def js_truthy_def)
qed

lemma walk_step_descend:
  assumes cont: "isObject obj \<or> isArray obj"
    and tr: "js_truthy (getValue obj key)"
    and nd: "\<not> descendArray opts"
  shows "walk pf fn opts obj (key # name1 # names) s =
           (case walk pf fn opts (getValue obj key) (name1 # names) s of
              Inl e \<Rightarrow> Inl e
            | Inr (item', s') \<Rightarrow> Inr (put_back obj key item', s'))"
proof -
  from cont have mem: "js_member pf obj key = Inr (getValue obj key)"
    by (rule js_member_getValue)
  from tr have nn: "\<not> isNil (getValue obj key)" by (rule truthy_not_nil)
  show ?thesis
    by (simp add: mem nn tr nd split: val.splits)
qed

lemma walk_step_stop:
  assumes cont: "isObject obj \<or> isArray obj"
    and nn: "\<not> isNil (getValue obj key)" and fl: "\<not> js_truthy (getValue obj key)"
  shows "walk pf fn opts obj (key # name1 # names) s = Inr (obj, s)"
proof -
  from cont have mem: "js_member pf obj key = Inr (getValue obj key)"
    by (rule js_member_getValue)
  show ?thesis
    by (simp add: mem nn fl)
qed

subsection \<open>The walk of \<^verbatim>\<open>$set\<close>\<close>

definition set_callback :: "platform \<Rightarrow> val \<Rightarrow> val \<Rightarrow> string \<Rightarrow> bool \<Rightarrow> error + val \<times> bool" where
  "set_callback pf v = (\<lambda>u k b. case set_mutator pf v u k of Inl e \<Rightarrow> Inl e | Inr (u', r) \<Rightarrow> Inr (u', r \<or> b))"

lemma walk_set_settable:
  assumes v: "v \<noteq> Undefined"
  shows "settable obj names \<Longrightarrow>
         (if isEqual pf (get_path obj names) v
          then walk pf (set_callback pf v) build_graph obj names b = Inr (obj, b)
          else (\<exists>obj'. walk pf (set_callback pf v) build_graph obj names b = Inr (obj', True)
                  \<and> get_path obj' names = v))"
proof (induction names arbitrary: obj b)
  case Nil
  then show ?case by simp
next
  case (Cons key rest)
  show ?case
  proof (cases rest)
    case Nil
    with Cons.prems have cont: "isObject obj \<or> (isArray obj \<and> canonical_index key \<noteq> None)" by simp
    then have mem: "js_member pf obj key = Inr (getValue obj key)"
      by (auto intro: js_member_getValue)
    from cont have visit: "isObject obj \<or> (isArray obj \<and> is_numeric key)"
      by (auto dest: canonical_is_numeric)
    show ?thesis
    proof (cases "isEqual pf (getValue obj key) v")
      case True
      with visit mem Nil show ?thesis by (simp add: set_mutator_def set_callback_def)
    next
      case False
      from js_assign_container [OF cont] obtain obj' where a: "js_assign obj key v = Inr obj'" by blast
      with False visit mem getValue_js_assign [OF a] Nil show ?thesis
        by (simp add: set_mutator_def set_callback_def)
    qed
  next
    case (Cons name1 names')
    let ?cur = "getValue obj key"
    from Cons.prems Cons have cont: "isObject obj \<or> (isArray obj \<and> canonical_index key \<noteq> None)"
      and cases: "isNil ?cur \<or> (js_truthy ?cur \<and> settable ?cur rest)" by simp_all
    show ?thesis
    proof (cases "isNil ?cur")
      case True
      from js_assign_container [OF cont] obtain obj1 where a: "js_assign obj key (Obj []) = Inr obj1"
        by blast
      have step: "walk pf (set_callback pf v) build_graph obj (key # rest) b =
           (case walk pf (set_callback pf v) build_graph (Obj []) rest b of
              Inl e \<Rightarrow> Inl e
            | Inr (item', s') \<Rightarrow> Inr (put_back obj1 key item', s'))"
        unfolding Cons by (rule walk_step_build [OF cont True a])
      have rne: "rest \<noteq> []" by (simp add: Cons)
      have undef: "get_path obj (key # rest) = Undefined"
        using True rne by (simp add: get_path_nil)
      have "settable (Obj []) rest" by (rule settable_empty_obj [OF rne])
      from Cons.IH [OF this, of b] v obtain item'
        where w: "walk pf (set_callback pf v) build_graph (Obj []) rest b = Inr (item', True)"
          and g: "get_path item' rest = v"
        by (auto simp: get_path_empty_obj [OF rne] isEqual_Undefined)
      have "getValue (put_back obj1 key item') key = item'"
        by (rule getValue_put_back [OF js_assign_keeps_container [OF a cont]])
           (simp add: getValue_js_assign [OF a])
      with step w g undef v show ?thesis
        by (simp add: isEqual_Undefined)
    next
      case False
      with cases have tr: "js_truthy ?cur" and st: "settable ?cur rest" by simp_all
      from cont have cont': "isObject obj \<or> isArray obj" by blast
      have step: "walk pf (set_callback pf v) build_graph obj (key # rest) b =
           (case walk pf (set_callback pf v) build_graph ?cur rest b of
              Inl e \<Rightarrow> Inl e
            | Inr (item', s') \<Rightarrow> Inr (put_back obj key item', s'))"
        unfolding Cons by (rule walk_step_descend [OF cont' tr]) (simp add: build_graph_def)
      have nu: "?cur \<noteq> Undefined" by (rule truthy_not_Undefined [OF tr])
      show ?thesis
      proof (cases "isEqual pf (get_path ?cur rest) v")
        case True
        with Cons.IH [OF st, of b] have "walk pf (set_callback pf v) build_graph ?cur rest b = Inr (?cur, b)"
          by simp
        with step True put_back_same [OF cont nu] show ?thesis by simp
      next
        case False
        with Cons.IH [OF st, of b] obtain item'
          where w: "walk pf (set_callback pf v) build_graph ?cur rest b = Inr (item', True)"
            and g: "get_path item' rest = v" by auto
        from step w g False getValue_put_back [OF cont nu, of item'] show ?thesis by simp
      qed
    qed
  qed
qed

subsection \<open>The walk of \<^verbatim>\<open>$set\<close> along a path it cannot follow\<close>

lemma put_back_primitive: "\<not> isObject obj \<Longrightarrow> \<not> isArray obj \<Longrightarrow> put_back obj key item = obj"
  by (auto simp: put_back_def isObject_def isArray_def split: val.splits)

lemma settable_container: "settable obj names \<Longrightarrow> isObject obj \<or> isArray obj"
  by (induction obj names rule: settable.induct) auto

lemma walk_set_not_settable:
  assumes v: "v \<noteq> Undefined"
  shows "\<not> settable obj names \<Longrightarrow> walk pf (set_callback pf v) build_graph obj names b = Inr (obj', b')
           \<Longrightarrow> obj' = obj \<and> b' = b"
proof (induction names arbitrary: obj obj' b b')
  case Nil
  then show ?case by simp
next
  case (Cons key rest)
  show ?case
  proof (cases rest)
    case Nil
    show ?thesis
    proof (cases "isArray obj \<and> is_numeric key")
      case True
      then obtain xs where obj: "obj = Arr xs" by (auto simp: isArray_def split: val.splits)
      from Cons.prems(1) Nil True have nc: "canonical_index key = None"
        by (auto simp: isObject_def obj)
      from True have "key \<noteq> ''length''" by (auto simp: is_numeric_def is_digit_def)
      with nc have "js_member pf obj key = Inr Undefined" by (simp add: js_member_def obj)
      moreover have "js_assign obj key v = Inl OutsideModel" by (simp add: js_assign_def obj nc)
      ultimately have "walk pf (set_callback pf v) build_graph obj [key] b = Inl OutsideModel"
        using True v by (simp add: set_callback_def set_mutator_def isEqual_Undefined)
      with Cons.prems(2) Nil show ?thesis by simp
    next
      case False
      with Cons.prems Nil show ?thesis by auto
    qed
  next
    case (Cons name1 names')
    let ?w = "walk pf (set_callback pf v) build_graph"
    have ih: "?w item rest b = Inr (i', c') \<Longrightarrow> \<not> settable item rest \<Longrightarrow> i' = item \<and> c' = b" for item i' c'
      using Cons.IH by blast
    show ?thesis
    proof (cases "isObject obj \<or> isArray obj")
      case cont: True
      let ?cur = "getValue obj key"
      show ?thesis
      proof (cases "isNil ?cur")
        case True
        show ?thesis
        proof (cases "isObject obj \<or> (isArray obj \<and> canonical_index key \<noteq> None)")
          case True
          with Cons.prems(1) \<open>isNil ?cur\<close> have False unfolding Cons by simp
          then show ?thesis ..
        next
          case False
          with cont obtain xs where obj: "obj = Arr xs" and nc: "canonical_index key = None"
            by (auto simp: isArray_def isObject_def split: val.splits)
          have "js_member pf obj key = Inr ?cur" using cont by (rule js_member_getValue)
          moreover have "js_assign obj key (Obj []) = Inl OutsideModel" by (simp add: js_assign_def obj nc)
          ultimately have "?w obj (key # rest) b = Inl OutsideModel"
            unfolding Cons using True by (simp add: build_graph_def)
          with Cons.prems(2) show ?thesis by simp
        qed
      next
        case nn: False
        show ?thesis
        proof (cases "js_truthy ?cur")
          case False
          have "?w obj (key # rest) b = Inr (obj, b)"
            unfolding Cons by (rule walk_step_stop [OF cont nn False])
          with Cons.prems(2) show ?thesis by simp
        next
          case True
          have step: "?w obj (key # rest) b =
             (case ?w ?cur rest b of Inl e \<Rightarrow> Inl e | Inr (item', s') \<Rightarrow> Inr (put_back obj key item', s'))"
            unfolding Cons by (rule walk_step_descend [OF cont True]) (simp add: build_graph_def)
          from Cons.prems(2) step obtain item' where w: "?w ?cur rest b = Inr (item', b')"
            and o': "obj' = put_back obj key item'"
            by (auto split: sum.splits)
          have nu: "?cur \<noteq> Undefined" by (rule truthy_not_Undefined [OF True])
          show ?thesis
          proof (cases "isObject obj \<or> (isArray obj \<and> canonical_index key \<noteq> None)")
            case c: True
            with Cons.prems(1) True have "\<not> settable ?cur rest" unfolding Cons by auto
            from ih [OF w this] o' put_back_same [OF c nu] show ?thesis by simp
          next
            case False
            with cont obtain xs where obj: "obj = Arr xs" and nc: "canonical_index key = None"
              by (auto simp: isArray_def isObject_def split: val.splits)
            then have "\<not> isObject ?cur \<and> \<not> isArray ?cur"
              by (auto simp: getValue_def isObject_def isArray_def)
            then have "\<not> settable ?cur rest" using settable_container by blast
            from ih [OF w this] o' show ?thesis
              by (simp add: put_back_def obj nc)
          qed
        qed
      qed
    next
      case prim: False
      then have pb: "put_back obj key item = obj" for item
        by (simp add: put_back_primitive)
      from prim have asg: "\<exists>e. js_assign obj key x = Inl e" for x
        by (auto simp: js_assign_def isObject_def isArray_def split: val.splits)
      show ?thesis
      proof (cases "js_member pf obj key")
        case (Inl e)
        then have "?w obj (key # rest) b = Inl e"
          unfolding Cons by simp
        with Cons.prems(2) show ?thesis by simp
      next
        case (Inr cur)
        from prim Inr have curprim: "\<not> isObject cur \<and> \<not> isArray cur"
          by (auto simp: js_member_def isObject_def isArray_def split: val.splits option.splits if_splits)
        then have ns: "\<not> settable cur rest" using settable_container by blast
        show ?thesis
        proof (cases "isNil cur")
          case True
          from asg [of "Obj []"] obtain e where "js_assign obj key (Obj []) = Inl e" by blast
          with Inr True have "?w obj (key # rest) b = Inl e"
            unfolding Cons by (simp add: build_graph_def)
          with Cons.prems(2) show ?thesis by simp
        next
          case False
          show ?thesis
          proof (cases "js_truthy cur")
            case f: False
            with Inr \<open>\<not> isNil cur\<close> have "?w obj (key # rest) b = Inr (obj, b)"
              unfolding Cons by simp
            with Cons.prems(2) show ?thesis by simp
          next
            case True
            with Inr \<open>\<not> isNil cur\<close> curprim
            have "?w obj (key # rest) b =
               (case ?w cur rest b of Inl e \<Rightarrow> Inl e | Inr (item', s') \<Rightarrow> Inr (put_back obj key item', s'))"
              unfolding Cons by (simp add: isArray_def split: val.splits)
            with Cons.prems(2) obtain item' where w: "?w cur rest b = Inr (item', b')"
              and o': "obj' = put_back obj key item'"
              by (auto split: sum.splits)
            from ih [OF w ns] o' pb show ?thesis by simp
          qed
        qed
      qed
    qed
  qed
qed

section \<open>Properties of updates\<close>

declare tokenizePath.simps [simp del]

lemma tokenizePath_leaf: "indexOf selector ''.$'' < 0 \<Longrightarrow> tokenizePath selector = Inr (Leaf selector, [])"
  by (subst tokenizePath.simps) simp

lemma set_op_single:
  assumes "indexOf selector ''.$'' < 0"
  shows "set_op pf qopts doc (Obj [(selector, v)]) filters =
           (case walk pf (set_callback pf v) build_graph doc (split_dot selector) False of
              Inl e \<Rightarrow> Inl e
            | Inr (doc', r) \<Rightarrow> Inr (if r then [selector] else [], doc'))"
  by (simp add: set_op_def walkExpression_def object_entries_def tokenizePath_leaf [OF assms]
      walk_selector_def set_callback_def split: sum.splits)


lemmas update_eval =
  set_op_def walkExpression_def object_entries_def walk_selector_def set_mutator_def build_graph_def
  js_member_def js_assign_def put_back_def obj_set_def obj_get_def canonical_index_def is_numeric_def
  is_digit_def isObject_def isArray_def isNil_def js_truthy_def getValue_def
  isEqual_def strict_equal_def getConstructor_def isFunction_def string_converter_def
  indexOf_def



subsection \<open>Numeric operators on a field that holds no number\<close>

lemma split_dot_no_dot: "CHR ''.'' \<notin> set s \<Longrightarrow> split_dot s = [s]"
  by (induction s) auto

lemma indexOf_from_absent: "c \<notin> set s \<Longrightarrow> indexOf_from s (c # pat) i = - 1"
  by (induction s arbitrary: i) auto

lemma indexOf_no_dot: "CHR ''.'' \<notin> set s \<Longrightarrow> indexOf s ''.$'' < 0"
  by (simp add: indexOf_def indexOf_from_absent)

lemma resolve_top_level:
  assumes "CHR ''.'' \<notin> set key"
  shows "resolve pf (Obj es) key False = Inr (obj_get es key)"
  by (simp add: resolve_def resolve_with_depth_def is_simple_type_def split_dot_no_dot [OF assms]
      isArray_def getValue_def Let_def)

lemma walk_top_level:
  "walk pf fn opts (Obj es) [key] s = fn (Obj es) key s"
  by (simp add: isObject_def)

lemma update_single_top_level:
  assumes "CHR ''.'' \<notin> set key"
  shows "walkExpression pf qopts (Obj [(key, v)]) filters
           (\<lambda>v node queries doc. applyUpdate pf doc node queries (m v) opts) (Obj es)
         = (case m v (Obj es) key of
              Inl e \<Rightarrow> Inl e
            | Inr (doc', r) \<Rightarrow> Inr (if r then [key] else [], doc'))"
  by (simp add: walkExpression_def object_entries_def tokenizePath_leaf [OF indexOf_no_dot [OF assms]]
      walk_selector_def split_dot_no_dot [OF assms] isObject_def split: sum.splits)




subsection \<open>An increment through an array filter\<close>

text \<open>
  The update \<^verbatim>\<open>{$inc: {"items.$[x].qty": c}}\<close> with the array filter
  \<^verbatim>\<open>{"x.qty": {$gt: 5}}\<close>.  \<open>gt5_query\<close> is the query the filter compiles to.
  \<open>qty_exceeds_5\<close> says of an element that it is a mapping whose \<^verbatim>\<open>qty\<close> is a number above
  5, or an array holding such a number; \<open>inc_qty\<close> is the element after
  \<^verbatim>\<open>o.qty = o.qty + c\<close>.
\<close>

definition gt5_query :: "platform \<Rightarrow> predicate list" where
  "gt5_query pf =
     [\<lambda>obj. case resolve pf obj ''x.qty'' True of
              Inl e \<Rightarrow> Inl e
            | Inr lhs \<Rightarrow> Inr (gt_pred pf lhs (Num 5) 1)]"

definition qty_exceeds_5 :: "val \<Rightarrow> bool" where
  "qty_exceeds_5 e =
     (case e of
        Obj m \<Rightarrow> list_ex (\<lambda>x. case x of Num n \<Rightarrow> n > 5 | _ \<Rightarrow> False) (ensureArray (obj_get m ''qty''))
      | _ \<Rightarrow> False)"

definition inc_qty :: "platform \<Rightarrow> val \<Rightarrow> val \<Rightarrow> val" where
  "inc_qty pf c e =
     (case e of Obj m \<Rightarrow> Obj (obj_set m ''qty'' (js_plus pf (obj_get m ''qty'') c)) | _ \<Rightarrow> e)"

lemma tokenize_items:
  "tokenizePath ''items.$[x].qty''
     = Inr (Placeholder ''items.$[x].qty'' ''items'' ''x'' (Some (Leaf ''qty'')), [''x''])"
  by (subst tokenizePath.simps)
    (simp add: indexOf_def substring_def substring_from_def clamp_index_def filter_ident_def
      is_lower_def is_alnum_def is_upper_def is_digit_def tokenizePath_leaf Let_def)

lemma conditions_items:
  "conditions_of_filters [''x''] [Obj [(''x.qty'', Obj [(''$gt'', Num 5)])]] []
     = Inr [(''x'', Obj [(''x.qty'', Obj [(''$gt'', Num 5)])])]"
  by (simp add: object_entries_def conditions_of_key_def starts_with_def add_condition_def
      obj_set_def obj_get_def canonical_index_def is_numeric_def is_digit_def)

lemma compile_gt5:
  "compile pf default_options (Obj [(''x.qty'', Obj [(''$gt'', Num 5)])]) = Inr (gt5_query pf)"
  by (subst compile.simps) (simp add: query_eval gt5_query_def)

lemma number_exceeds_5:
  "(getType x = getType (Num 5) \<and> compare1 pf x (Num 5) > 0) = (case x of Num n \<Rightarrow> n > 5 | _ \<Rightarrow> False)"
  by (cases x) (simp_all add: getType_def compare1_def sort_rank_def js_less_def)

lemma gt_pred_5:
  "gt_pred pf qv (Num 5) d = list_ex (\<lambda>x. case x of Num n \<Rightarrow> n > 5 | _ \<Rightarrow> False) (ensureArray qv)"
  by (simp add: gt_pred_def compare_with_def number_exceeds_5)

lemma resolve_x_qty:
  assumes "\<not> isArray e"
  shows "resolve pf (Obj [(''x'', e)]) ''x.qty'' True
           = Inr (case e of Obj m \<Rightarrow> obj_get m ''qty'' | _ \<Rightarrow> Undefined)"
  using assms
  by (cases e; cases "getValue e ''qty''")
     (simp_all add: resolve_def resolve_with_depth_def is_simple_type_def isArray_def getValue_def
       obj_get_def Let_def is_numeric_def)

lemma test_gt5:
  assumes "\<not> isArray e"
  shows "test (gt5_query pf) (Obj [(''x'', e)]) = Inr (qty_exceeds_5 e)"
  using assms
  by (cases e) (simp_all add: gt5_query_def resolve_x_qty gt_pred_5 qty_exceeds_5_def ensureArray_def)

text \<open>The element after the update: incremented when it matches, as it was otherwise.\<close>

definition inc_matching :: "platform \<Rightarrow> val \<Rightarrow> val \<Rightarrow> val" where
  "inc_matching pf c e = (if qty_exceeds_5 e then inc_qty pf c e else e)"

lemma exceeds_truthy:
  "list_ex (\<lambda>x. case x of Num n \<Rightarrow> n > 5 | _ \<Rightarrow> False) (ensureArray cur) \<Longrightarrow> js_truthy cur"
  by (cases cur) (auto simp: ensureArray_def js_truthy_def)

lemma update_matching_element:
  assumes "qty_exceeds_5 e"
  shows "applyUpdate pf e (Leaf ''qty'') q (inc_mutator pf c) build_graph = Inr (inc_qty pf c e, True)"
proof -
  from assms obtain m where e: "e = Obj m"
    and ex: "list_ex (\<lambda>x. case x of Num n \<Rightarrow> n > 5 | _ \<Rightarrow> False) (ensureArray (obj_get m ''qty''))"
    by (cases e) (auto simp: qty_exceeds_5_def)
  have "inc_mutator pf c (Obj m) ''qty''
          = Inr (Obj (obj_set m ''qty'' (js_plus pf (obj_get m ''qty'') c)), True)"
    using exceeds_truthy [OF ex] by (simp add: inc_mutator_def js_member_def js_assign_def)
  then show ?thesis
    by (simp add: e walk_selector_def isObject_def inc_qty_def)
qed

lemma inc_matching_not_array: "\<not> isArray e \<Longrightarrow> \<not> isArray (inc_matching pf c e)"
  by (cases e) (auto simp: inc_matching_def inc_qty_def isArray_def)

lemma apply_elements_items:
  assumes "\<forall>e\<in>set t. \<not> isArray e" and "k \<le> length t" and "length t - k = n"
  shows "apply_elements pf t [k ..< length t] ''x'' (Some (Leaf ''qty'')) [(''x'', gt5_query pf)]
           (inc_mutator pf c) build_graph
         = Inr (take k t @ map (inc_matching pf c) (drop k t), list_ex qty_exceeds_5 (drop k t))"
  using assms
proof (induction n arbitrary: k t)
  case 0
  then show ?case by simp
next
  case (Suc n)
  then have k: "k < length t" by simp
  let ?e = "t ! k"
  from Suc.prems(1) k have na: "\<not> isArray ?e" by simp
  have idx: "[k ..< length t] = k # [Suc k ..< length t]" using k by (simp add: upt_conv_Cons)
  have dr: "drop k t = ?e # drop (Suc k) t" using k by (simp add: Cons_nth_drop_Suc)
  show ?case
  proof (cases "qty_exceeds_5 ?e")
    case False
    from Suc.IH [of t "Suc k"] Suc.prems k
    have "apply_elements pf t [Suc k ..< length t] ''x'' (Some (Leaf ''qty'')) [(''x'', gt5_query pf)]
            (inc_mutator pf c) build_graph
          = Inr (take (Suc k) t @ map (inc_matching pf c) (drop (Suc k) t),
                 list_ex qty_exceeds_5 (drop (Suc k) t))" by simp
    moreover have "inc_matching pf c ?e = ?e" using False by (simp add: inc_matching_def)
    ultimately show ?thesis
      using False k na unfolding idx dr
      by (simp add: test_gt5 take_Suc_conv_app_nth del: upt_Suc)
  next
    case True
    let ?t1 = "t[k := inc_qty pf c ?e]"
    have e1: "inc_matching pf c ?e = inc_qty pf c ?e" using True by (simp add: inc_matching_def)
    have "\<forall>e\<in>set ?t1. \<not> isArray e"
    proof
      fix e assume "e \<in> set ?t1"
      then have "e = inc_qty pf c ?e \<or> e \<in> set t"
        using set_update_subset_insert [of t k "inc_qty pf c ?e"] by auto
      then show "\<not> isArray e"
        using Suc.prems(1) inc_matching_not_array [OF na, of pf c] e1 by auto
    qed
    from Suc.IH [of ?t1 "Suc k", OF this] Suc.prems k
    have "apply_elements pf ?t1 [Suc k ..< length t] ''x'' (Some (Leaf ''qty'')) [(''x'', gt5_query pf)]
            (inc_mutator pf c) build_graph
          = Inr (take (Suc k) ?t1 @ map (inc_matching pf c) (drop (Suc k) ?t1),
                 list_ex qty_exceeds_5 (drop (Suc k) ?t1))" by simp
    moreover have "take (Suc k) ?t1 = take k t @ [inc_qty pf c ?e]"
      using k by (simp add: take_Suc_conv_app_nth)
    moreover have "drop (Suc k) ?t1 = drop (Suc k) t" by simp
    ultimately show ?thesis
      using True k na e1 unfolding idx dr
      by (simp add: test_gt5 update_matching_element del: upt_Suc applyUpdate.simps)
  qed
qed

lemma resolve_items_field:
  assumes "obj_get es ''items'' = Arr elems"
  shows "resolve_with_depth (Obj es) ''items'' = (Arr elems, 0)"
  using assms by (simp add: resolve_with_depth_def is_simple_type_def isArray_def getValue_def Let_def)

lemma applyUpdate_items:
  assumes items: "obj_get es ''items'' = Arr elems" and flat: "\<forall>e\<in>set elems. \<not> isArray e"
  shows "applyUpdate pf (Obj es) (Placeholder sel ''items'' ''x'' (Some (Leaf ''qty'')))
           [(''x'', gt5_query pf)] (inc_mutator pf c) build_graph
         = Inr (Obj (obj_set es ''items'' (Arr (map (inc_matching pf c) elems))),
                list_ex qty_exceeds_5 elems)"
  using apply_elements_items [OF flat, of 0 "length elems" pf c]
  by (simp add: resolve_items_field [OF items] put_back_def del: apply_elements.simps)




section \<open>The canonical string of a value\<close>

text \<open>\<^verbatim>\<open>xs.join(",")\<close> on an array of strings.\<close>

fun join_comma :: "string list \<Rightarrow> string" where
  "join_comma [] = []"
| "join_comma [s] = s"
| "join_comma (s # t # ts) = s @ '','' @ join_comma (t # ts)"

text \<open>
  \<^verbatim>\<open>stringify(value)\<close> on a tree of values: the inner function \<^verbatim>\<open>str\<close>.  A value with a
  string converter gives the converter's string.  A plain object whose \<^verbatim>\<open>toJSON\<close> is a
  function gives \<^verbatim>\<open>JSON.stringify\<close> of the platform in parentheses (the tag of \<^verbatim>\<open>Object\<close>
  is empty).  An array gives its elements' strings, a plain object its keys, sorted, each
  with the string of its value.  The set \<^verbatim>\<open>cycle\<close> holds the objects between the root and
  the current one; in a tree none of them is the current one, so the test
  \<^verbatim>\<open>cycle.has(v)\<close> fails; the model for object graphs is \<open>str_ref\<close> below.
\<close>

function (sequential) stringify :: "platform \<Rightarrow> val \<Rightarrow> error + string" where
  "stringify pf (Arr xs) =
     (case collect (map (stringify pf) xs) of
        Inl e \<Rightarrow> Inl e
      | Inr ss \<Rightarrow> Inr (''['' @ join_comma ss @ '']''))"
| "stringify pf (Obj es) =
     (if isFunction (obj_get es ''toJSON'') then
        (case JSON_stringify pf (Obj es) of Inl e \<Rightarrow> Inl e | Inr s \<Rightarrow> Inr (''('' @ s @ '')''))
      else
        (case collect (map (\<lambda>k. case stringify pf (obj_get es k) of
                                   Inl e \<Rightarrow> Inl e
                                 | Inr s \<Rightarrow> Inr (k @ '':'' @ s))
                         (sort (map fst es))) of
           Inl e \<Rightarrow> Inl e
         | Inr ss \<Rightarrow> Inr (''{'' @ join_comma ss @ ''}'')))"
| "stringify pf v = (case string_converter pf v of Some s \<Rightarrow> Inr s | None \<Rightarrow> Inl OutsideModel)"
  by pat_completeness auto
termination
  apply (relation "measure (\<lambda>(pf, v). size v)")
  apply (auto simp: less_Suc_eq_le size_obj_get dest: size_element)
  done

text \<open>
  A plain document: every mapping in it has each of its keys once, and none has a function
  as its member \<^verbatim>\<open>toJSON\<close>.
\<close>

fun plain :: "val \<Rightarrow> bool" where
  "plain (Arr xs) = (\<forall>x\<in>set xs. plain x)"
| "plain (Obj es) =
     (distinct (map fst es) \<and> \<not> isFunction (obj_get es ''toJSON'') \<and> (\<forall>kv\<in>set es. plain (snd kv)))"
| "plain v = True"

subsection \<open>Equal documents have the same string\<close>

declare stringify.simps [simp del]

lemma strict_equal_same: "strict_equal a b \<Longrightarrow> a = b"
  by (cases a) (simp_all add: strict_equal_def)

lemma stringify_converter:
  "string_converter pf a = Some s \<Longrightarrow> stringify pf a = Inr s"
  by (cases a) (simp_all add: stringify.simps string_converter_def)

lemma converter_None:
  "string_converter pf a = None \<longleftrightarrow> (\<exists>xs. a = Arr xs) \<or> (\<exists>es. a = Obj es)"
  by (cases a) (simp_all add: string_converter_def)

lemma stringify_elements:
  assumes "length xs = length ys"
    and "\<forall>(a, b)\<in>set (zip xs ys). stringify pf a = stringify pf b"
  shows "map (stringify pf) xs = map (stringify pf) ys"
  using assms by (induction xs ys rule: list_induct2) auto

lemma same_keys:
  assumes da: "distinct (map fst ea)" and db: "distinct (map fst eb)"
    and len: "length ea = length eb"
    and card: "card (set (map fst ea @ map fst eb)) = length ea"
  shows "set (map fst ea) = set (map fst eb)"
proof -
  let ?A = "set (map fst ea)" and ?B = "set (map fst eb)"
  have ca: "card ?A = length ea" using da by (metis distinct_card length_map)
  have cb: "card ?B = length ea" using db len by (metis distinct_card length_map)
  have cu: "card (?A \<union> ?B) = length ea" using card by simp
  have "?A = ?A \<union> ?B" by (rule card_subset_eq) (use ca cu in auto)
  moreover have "?B = ?A \<union> ?B" by (rule card_subset_eq) (use cb cu in auto)
  ultimately show ?thesis by simp
qed

lemma sorted_keys_equal:
  assumes "distinct (ks :: string list)" "distinct ks'" "set ks = set ks'"
  shows "sort ks = sort ks'"
  using assms by (intro sorted_distinct_set_unique) simp_all

lemma obj_get_member: "distinct (map fst es) \<Longrightarrow> (k, v) \<in> set es \<Longrightarrow> obj_get es k = v"
  by (simp add: obj_get_def)

lemma plain_obj_get: "plain (Obj es) \<Longrightarrow> plain (obj_get es k)"
  by (auto simp: obj_get_def split: option.splits dest: map_of_SomeD)

lemma stringify_members:
  assumes pa: "plain (Obj ea)" and pb: "plain (Obj eb)"
    and len: "length ea = length eb"
    and card: "card (set (map fst ea @ map fst eb)) = length ea"
    and vals: "\<forall>(a, b)\<in>set (map (\<lambda>(k, v). (v, obj_get eb k)) ea). stringify pf a = stringify pf b"
  shows "stringify pf (Obj ea) = stringify pf (Obj eb)"
proof -
  from pa pb have da: "distinct (map fst ea)" and db: "distinct (map fst eb)" by simp_all
  have keys: "sort (map fst ea) = sort (map fst eb)"
    by (rule sorted_keys_equal [OF da db same_keys [OF da db len card]])
  have "stringify pf (obj_get ea k) = stringify pf (obj_get eb k)" if "k \<in> set (sort (map fst ea))" for k
  proof -
    from that obtain v where m: "(k, v) \<in> set ea" by auto
    with vals have "stringify pf v = stringify pf (obj_get eb k)" by auto
    with obj_get_member [OF da m] show ?thesis by simp
  qed
  then have m: "map (\<lambda>k. case stringify pf (obj_get ea k) of Inl e \<Rightarrow> Inl e | Inr s \<Rightarrow> Inr (k @ '':'' @ s))
               (sort (map fst ea))
           = map (\<lambda>k. case stringify pf (obj_get eb k) of Inl e \<Rightarrow> Inl e | Inr s \<Rightarrow> Inr (k @ '':'' @ s))
               (sort (map fst ea))"
    by (intro map_cong) simp_all
  have "stringify pf (Obj ea)
          = (case collect (map (\<lambda>k. case stringify pf (obj_get ea k) of
                                       Inl e \<Rightarrow> Inl e | Inr s \<Rightarrow> Inr (k @ '':'' @ s))
                             (sort (map fst ea))) of
               Inl e \<Rightarrow> Inl e
             | Inr ss \<Rightarrow> Inr (''{'' @ join_comma ss @ ''}''))"
    using pa by (simp add: stringify.simps)
  also have "\<dots> = (case collect (map (\<lambda>k. case stringify pf (obj_get eb k) of
                                       Inl e \<Rightarrow> Inl e | Inr s \<Rightarrow> Inr (k @ '':'' @ s))
                             (sort (map fst eb))) of
               Inl e \<Rightarrow> Inl e
             | Inr ss \<Rightarrow> Inr (''{'' @ join_comma ss @ ''}''))"
    by (subst m) (simp only: keys)
  also have "\<dots> = stringify pf (Obj eb)"
    using pb by (simp add: stringify.simps)
  finally show ?thesis .
qed

lemma isEqual_loop_stringify:
  assumes "isEqual_loop pf args" and "\<forall>(a, b)\<in>set args. plain a \<and> plain b"
  shows "\<forall>(a, b)\<in>set args. stringify pf a = stringify pf b"
  using assms
proof (induction pf args rule: isEqual_loop.induct)
  case (1 pf)
  then show ?case by simp
next
  case (2 pf a b args)
  from "2.prems"(2) have pa: "plain a" and pb: "plain b"
    and prest: "\<forall>(a, b)\<in>set args. plain a \<and> plain b" by auto
  show ?case
  proof (cases "strict_equal a b")
    case True
    with "2.prems"(1) have "isEqual_loop pf args" by simp
    from "2.IH"(1) [OF True this prest] strict_equal_same [OF True] show ?thesis by simp
  next
    case ne: False
    with "2.prems"(1) have ctor: "\<not> (getConstructor a \<noteq> getConstructor b \<or> isFunction a)"
      by (auto split: if_splits)
    show ?thesis
    proof (cases "string_converter pf a")
      case (Some sa)
      with "2.prems"(1) ne ctor have eq: "Some sa = string_converter pf b" and rest: "isEqual_loop pf args"
        by (auto split: if_splits)
      have "\<forall>(a, b)\<in>set args. stringify pf a = stringify pf b"
        by (rule "2.IH"(4) [OF ne ctor Some _ rest prest]) (simp add: eq)
      moreover have "stringify pf a = stringify pf b"
        using stringify_converter [OF Some] stringify_converter [OF eq [symmetric]] by simp
      ultimately show ?thesis by simp
    next
      case None
      then consider xs where "a = Arr xs" | ea where "a = Obj ea" by (auto simp: converter_None)
      then show ?thesis
      proof cases
        case 1
        with ctor obtain ys where b: "b = Arr ys" by (cases b) (auto simp: getConstructor_def)
        from "2.prems"(1) ne ctor None 1 b
        have len: "length xs = length ys" and rest: "isEqual_loop pf (rev (zip xs ys) @ args)"
          by (auto split: if_splits)
        have plains: "\<forall>(a, b)\<in>set (rev (zip xs ys) @ args). plain a \<and> plain b"
          using pa pb prest 1 b by (auto dest: set_zip_leftD set_zip_rightD)
        have all: "\<forall>(a, b)\<in>set (rev (zip xs ys) @ args). stringify pf a = stringify pf b"
          by (rule "2.IH"(2) [OF ne ctor None refl 1 b _ rest plains]) (simp add: len)
        then have "map (stringify pf) xs = map (stringify pf) ys"
          by (intro stringify_elements [OF len]) auto
        then have "stringify pf a = stringify pf b" by (simp add: 1 b stringify.simps)
        with all show ?thesis by auto
      next
        case 2
        with ctor obtain eb where b: "b = Obj eb" by (cases b) (auto simp: getConstructor_def)
        from "2.prems"(1) ne ctor None 2 b
        have len: "length ea = length eb"
          and card: "card (set (map fst ea @ map fst eb)) = length ea"
          and rest: "isEqual_loop pf (rev (map (\<lambda>(k, v). (v, obj_get eb k)) ea) @ args)"
          by (auto split: if_splits)
        have plains: "\<forall>(a, b)\<in>set (rev (map (\<lambda>(k, v). (v, obj_get eb k)) ea) @ args). plain a \<and> plain b"
          using pa pb prest plain_obj_get [of eb] unfolding 2 b by auto
        have all: "\<forall>(a, b)\<in>set (rev (map (\<lambda>(k, v). (v, obj_get eb k)) ea) @ args).
                     stringify pf a = stringify pf b"
        proof (rule "2.IH"(3) [OF ne ctor None refl 2 b _ _ rest plains])
          show "\<not> length ea \<noteq> length eb" using len by simp
          show "\<not> card (set (map fst ea @ map fst eb)) \<noteq> length ea" using card by simp
        qed
        then have "stringify pf a = stringify pf b"
          unfolding 2 b
          by (intro stringify_members [OF pa [unfolded 2] pb [unfolded b] len card]) auto
        with all show ?thesis by auto
      qed
    qed
  qed
qed

lemma isEqual_stringify:
  assumes "isEqual pf a b" "plain a" "plain b"
  shows "stringify pf a = stringify pf b"
  using isEqual_loop_stringify [of pf "[(a, b)]"] assms by (simp add: isEqual_def)

section \<open>Object graphs\<close>

text \<open>
  A document with shared or self-referential parts is a graph of objects.  The heap holds
  its arrays and plain objects, addressed by their position; a member of an object is a
  value held directly (a tree of values) or a reference to an object of the heap.
\<close>

datatype hvalue = Held val | Ref nat

datatype hobject = HArr "hvalue list" | HObj "(string \<times> hvalue) list"

type_synonym heap = "hobject list"

definition hobj_get :: "(string \<times> hvalue) list \<Rightarrow> string \<Rightarrow> hvalue" where
  "hobj_get es k = (case map_of es k of None \<Rightarrow> Held Undefined | Some v \<Rightarrow> v)"

definition has_toJSON :: "(string \<times> hvalue) list \<Rightarrow> bool" where
  "has_toJSON es = (case hobj_get es ''toJSON'' of Held f \<Rightarrow> isFunction f | Ref a \<Rightarrow> False)"

lemma unvisited_decreases:
  assumes "\<not> n \<le> a" and "a \<notin> c"
  shows "card ({..<n} - (c :: nat set)) - Suc 0 < card ({..<n} - c)"
proof -
  have "a \<in> {..<n} - c" using assms by simp
  then have "0 < card ({..<n} - c)" by (auto simp: card_gt_0_iff)
  then show ?thesis by simp
qed

text \<open>
  \<^verbatim>\<open>str\<close> on an object of the heap, with the set \<^verbatim>\<open>cycle\<close> of the objects between the root
  and the current one: \<^verbatim>\<open>cycle.add(v)\<close> before the members are visited,
  \<^verbatim>\<open>cycle.delete(v)\<close> after them, so the members see the set with the object and the
  siblings the set without it.  \<open>str_all\<close> is \<^verbatim>\<open>map(str)\<close>, which stops at the first
  exception.  \<open>json\<close> stands for \<^verbatim>\<open>JSON.stringify\<close> of the object at an address.
\<close>

function str_ref :: "platform \<Rightarrow> (nat \<Rightarrow> error + string) \<Rightarrow> heap \<Rightarrow> nat set \<Rightarrow> hvalue \<Rightarrow> error + string"
  and str_all :: "platform \<Rightarrow> (nat \<Rightarrow> error + string) \<Rightarrow> heap \<Rightarrow> nat set \<Rightarrow> hvalue list \<Rightarrow> error + string list"
  where
  "str_ref pf json h cycle (Held t) = stringify pf t"
| "str_ref pf json h cycle (Ref a) =
     (if length h \<le> a then Inl OutsideModel
      else
        (case h ! a of
           HArr xs \<Rightarrow>
             if a \<in> cycle then Inl CycleFound
             else
               (case str_all pf json h (insert a cycle) xs of
                  Inl e \<Rightarrow> Inl e
                | Inr ss \<Rightarrow> Inr (''['' @ join_comma ss @ '']''))
         | HObj es \<Rightarrow>
             if has_toJSON es then
               (case json a of Inl e \<Rightarrow> Inl e | Inr s \<Rightarrow> Inr (''('' @ s @ '')''))
             else if a \<in> cycle then Inl CycleFound
             else
               (case str_all pf json h (insert a cycle) (map (hobj_get es) (sort (map fst es))) of
                  Inl e \<Rightarrow> Inl e
                | Inr ss \<Rightarrow>
                    Inr (''{'' @ join_comma (map (\<lambda>(k, s). k @ '':'' @ s) (zip (sort (map fst es)) ss))
                           @ ''}''))))"
| "str_all pf json h cycle [] = Inr []"
| "str_all pf json h cycle (v # vs) =
     (case str_ref pf json h cycle v of
        Inl e \<Rightarrow> Inl e
      | Inr s \<Rightarrow>
          (case str_all pf json h cycle vs of
             Inl e \<Rightarrow> Inl e
           | Inr ss \<Rightarrow> Inr (s # ss)))"
  by pat_completeness auto

termination
  apply (relation "inv_image (less_than <*lex*> less_than)
      (\<lambda>x. case x of
              Inl (pf, json, h, c, v) \<Rightarrow> (card ({..<length h} - c), 0)
            | Inr (pf, json, h, c, vs) \<Rightarrow> (card ({..<length h} - c), Suc (length vs)))")
  apply (auto simp: unvisited_decreases)
  done

text \<open>\<^verbatim>\<open>stringify(value)\<close> for the object at an address: the set \<^verbatim>\<open>cycle\<close> starts empty.\<close>

definition stringify_object :: "platform \<Rightarrow> (nat \<Rightarrow> error + string) \<Rightarrow> heap \<Rightarrow> nat \<Rightarrow> error + string" where
  "stringify_object pf json h entry = str_ref pf json h {} (Ref entry)"

text \<open>
  The references among the members of an object, the edges of the graph, and a
  self-referential document: from the entry object one comes to an object that is reached again
  from itself.
\<close>

fun refs_of :: "hobject \<Rightarrow> nat list" where
  "refs_of (HArr xs) = concat (map (\<lambda>v. case v of Ref a \<Rightarrow> [a] | Held t \<Rightarrow> []) xs)"
| "refs_of (HObj es) = concat (map (\<lambda>kv. case snd kv of Ref a \<Rightarrow> [a] | Held t \<Rightarrow> []) es)"

definition edges :: "heap \<Rightarrow> (nat \<times> nat) set" where
  "edges h = {(a, b). a < length h \<and> b \<in> set (refs_of (h ! a))}"

definition cyclic :: "heap \<Rightarrow> nat \<Rightarrow> bool" where
  "cyclic h entry \<longleftrightarrow> (\<exists>a. (entry, a) \<in> (edges h)\<^sup>* \<and> (a, a) \<in> (edges h)\<^sup>+)"

text \<open>
  A plain graph: the values held are plain documents, the references lead to objects of
  the heap, every plain object has each of its keys once and none has a function as its
  member \<^verbatim>\<open>toJSON\<close>.
\<close>

fun plain_member :: "heap \<Rightarrow> hvalue \<Rightarrow> bool" where
  "plain_member h (Held t) = plain t"
| "plain_member h (Ref a) = (a < length h)"

fun plain_object :: "heap \<Rightarrow> hobject \<Rightarrow> bool" where
  "plain_object h (HArr xs) = (\<forall>v\<in>set xs. plain_member h v)"
| "plain_object h (HObj es) =
     (distinct (map fst es) \<and> \<not> has_toJSON es \<and> (\<forall>kv\<in>set es. plain_member h (snd kv)))"

definition plain_heap :: "heap \<Rightarrow> bool" where
  "plain_heap h \<longleftrightarrow> (\<forall>ob\<in>set h. plain_object h ob)"

subsection \<open>Plain documents have a string\<close>

lemma collect_all_Inr:
  "(\<And>x. x \<in> set xs \<Longrightarrow> \<exists>s. f x = Inr s) \<Longrightarrow> \<exists>ss. collect (map f xs) = Inr ss"
proof (induction xs)
  case Nil
  show ?case by simp
next
  case (Cons x xs)
  from Cons.prems [of x] obtain s where "f x = Inr s" by auto
  moreover from Cons.IH Cons.prems obtain ss where "collect (map f xs) = Inr ss" by auto
  ultimately show ?case by simp
qed

lemma plain_stringify: "plain t \<Longrightarrow> \<exists>s. stringify pf t = Inr s"
proof (induction pf t rule: stringify.induct)
  case (1 pf xs)
  then have "\<And>x. x \<in> set xs \<Longrightarrow> \<exists>s. stringify pf x = Inr s" by simp
  from collect_all_Inr [of xs "stringify pf", OF this] show ?case
    by (auto simp: stringify.simps)
next
  case (2 pf es)
  from "2.prems" have nf: "\<not> isFunction (obj_get es ''toJSON'')" by simp
  let ?g = "\<lambda>k. case stringify pf (obj_get es k) of Inl e \<Rightarrow> Inl e | Inr s \<Rightarrow> Inr (k @ '':'' @ s)"
  have ok: "\<exists>s. ?g k = Inr s" if "k \<in> set (sort (map fst es))" for k
  proof -
    from "2.IH" [OF nf that plain_obj_get [OF "2.prems"]]
    obtain s where "stringify pf (obj_get es k) = Inr s" by auto
    then show ?thesis by simp
  qed
  have "\<exists>ss. collect (map ?g (sort (map fst es))) = Inr ss"
    by (rule collect_all_Inr) (rule ok)
  then obtain ss where "collect (map ?g (sort (map fst es))) = Inr ss" by blast
  with nf show ?case by (simp add: stringify.simps)
qed (simp_all add: stringify.simps string_converter_def)

subsection \<open>The only error on a plain graph is the cycle error\<close>

lemma hobj_get_plain:
  assumes "\<forall>kv\<in>set es. plain_member h (snd kv)"
  shows "plain_member h (hobj_get es k)"
proof (cases "map_of es k")
  case None
  then show ?thesis by (simp add: hobj_get_def)
next
  case (Some v)
  then have "(k, v) \<in> set es" by (rule map_of_SomeD)
  with assms Some show ?thesis by (auto simp: hobj_get_def)
qed

lemma plain_heap_object: "plain_heap h \<Longrightarrow> a < length h \<Longrightarrow> plain_object h (h ! a)"
  by (simp add: plain_heap_def)

lemma str_error_is_cycle:
  shows "plain_heap h \<Longrightarrow> plain_member h v \<Longrightarrow> str_ref pf json h c v = Inl e \<Longrightarrow> e = CycleFound"
    and "plain_heap h \<Longrightarrow> \<forall>v\<in>set vs. plain_member h v \<Longrightarrow> str_all pf json h c vs = Inl e
         \<Longrightarrow> e = CycleFound"
proof (induction pf json h c v and pf json h c vs rule: str_ref_str_all.induct)
  case (1 pf json h cycle t)
  from "1.prems"(2) plain_stringify [of t pf] "1.prems"(3) show ?case by auto
next
  case (2 pf json h cycle a)
  from "2.prems"(2) have a: "\<not> length h \<le> a" by simp
  then have po: "plain_object h (h ! a)" using plain_heap_object [OF "2.prems"(1)] by simp
  show ?case
  proof (cases "h ! a")
    case (HArr xs)
    show ?thesis
    proof (cases "a \<in> cycle")
      case True
      with "2.prems"(3) a HArr show ?thesis by simp
    next
      case False
      with "2.prems"(3) a HArr have "str_all pf json h (insert a cycle) xs = Inl e"
        by (simp split: sum.splits)
      moreover from po HArr have "\<forall>v\<in>set xs. plain_member h v" by simp
      ultimately show ?thesis using "2.IH"(1) [OF a HArr False "2.prems"(1)] by simp
    qed
  next
    case (HObj es)
    with po have nj: "\<not> has_toJSON es" and pm: "\<forall>kv\<in>set es. plain_member h (snd kv)" by simp_all
    show ?thesis
    proof (cases "a \<in> cycle")
      case True
      with "2.prems"(3) a HObj nj show ?thesis by simp
    next
      case False
      with "2.prems"(3) a HObj nj
      have "str_all pf json h (insert a cycle) (map (hobj_get es) (sort (map fst es))) = Inl e"
        by (simp split: sum.splits)
      moreover have "\<forall>v\<in>set (map (hobj_get es) (sort (map fst es))). plain_member h v"
        using hobj_get_plain [OF pm] by simp
      ultimately show ?thesis using "2.IH"(2) [OF a HObj nj False "2.prems"(1)] by simp
    qed
  qed
next
  case (3 pf json h cycle)
  then show ?case by simp
next
  case (4 pf json h cycle v vs)
  show ?case
  proof (cases "str_ref pf json h cycle v")
    case (Inl e')
    with "4.prems"(3) have "e' = e" by simp
    with "4.IH"(1) [OF "4.prems"(1)] "4.prems"(2) Inl show ?thesis by simp
  next
    case (Inr s)
    with "4.prems"(3) have "str_all pf json h cycle vs = Inl e" by (simp split: sum.splits)
    with "4.IH"(2) [OF Inr "4.prems"(1)] "4.prems"(2) show ?thesis by simp
  qed
qed

subsection \<open>A string is returned only where no cycle is reached\<close>

lemma edge_member_arr:
  assumes "h ! a = HArr xs" and "(a, k) \<in> edges h"
  shows "Ref k \<in> set xs"
proof -
  from assms have "k \<in> set (refs_of (HArr xs))" by (simp add: edges_def)
  then obtain v where "v \<in> set xs" and "k \<in> set (case v of Ref a \<Rightarrow> [a] | Held t \<Rightarrow> [])" by auto
  then show ?thesis by (cases v) auto
qed

lemma hobj_get_member: "distinct (map fst es) \<Longrightarrow> (k, v) \<in> set es \<Longrightarrow> hobj_get es k = v"
  by (simp add: hobj_get_def)

lemma edge_member_obj:
  assumes "h ! a = HObj es" and "distinct (map fst es)" and "(a, k) \<in> edges h"
  shows "Ref k \<in> set (map (hobj_get es) (sort (map fst es)))"
proof -
  from assms have "k \<in> set (refs_of (HObj es))" by (simp add: edges_def)
  then obtain kv where m: "kv \<in> set es" and "k \<in> set (case snd kv of Ref a \<Rightarrow> [a] | Held t \<Rightarrow> [])"
    by auto
  then have "snd kv = Ref k" by (cases "snd kv") auto
  with m have "(fst kv, Ref k) \<in> set es" by (metis prod.collapse)
  from hobj_get_member [OF assms(2) this] this show ?thesis by force
qed

lemma node_acyclic:
  assumes fresh: "a \<notin> c"
    and kids: "\<And>k. (a, k) \<in> E \<Longrightarrow> Ref k \<in> set cs"
    and ih: "\<forall>k b. Ref k \<in> set cs \<longrightarrow> (k, b) \<in> E\<^sup>* \<longrightarrow> b \<notin> insert a c \<and> (b, b) \<notin> E\<^sup>+"
    and r: "(a, b) \<in> E\<^sup>*"
  shows "b \<notin> c \<and> (b, b) \<notin> E\<^sup>+"
proof -
  from r consider "b = a" | k where "(a, k) \<in> E" "(k, b) \<in> E\<^sup>*"
    by (auto elim: converse_rtranclE)
  then show ?thesis
  proof cases
    case 1
    have "(a, a) \<notin> E\<^sup>+"
    proof
      assume "(a, a) \<in> E\<^sup>+"
      then obtain k where "(a, k) \<in> E" "(k, a) \<in> E\<^sup>*" by (auto dest: tranclD)
      with kids ih have "a \<notin> insert a c" by blast
      then show False by simp
    qed
    with fresh 1 show ?thesis by simp
  next
    case 2
    with kids ih show ?thesis by blast
  qed
qed

lemma str_result_acyclic:
  shows "plain_heap h \<Longrightarrow> str_ref pf json h c v = Inr s
         \<Longrightarrow> \<forall>a b. v = Ref a \<longrightarrow> (a, b) \<in> (edges h)\<^sup>* \<longrightarrow> b \<notin> c \<and> (b, b) \<notin> (edges h)\<^sup>+"
    and "plain_heap h \<Longrightarrow> str_all pf json h c vs = Inr ss
         \<Longrightarrow> \<forall>a b. Ref a \<in> set vs \<longrightarrow> (a, b) \<in> (edges h)\<^sup>* \<longrightarrow> b \<notin> c \<and> (b, b) \<notin> (edges h)\<^sup>+"
proof (induction pf json h c v and pf json h c vs arbitrary: s and ss rule: str_ref_str_all.induct)
  case (1 pf json h cycle t)
  show ?case by simp
next
  case (2 pf json h cycle a)
  from "2.prems"(2) have a: "\<not> length h \<le> a" by (auto split: if_splits)
  then have po: "plain_object h (h ! a)" using plain_heap_object [OF "2.prems"(1)] by simp
  show ?case
  proof (cases "h ! a")
    case (HArr xs)
    from "2.prems"(2) a HArr have fresh: "a \<notin> cycle" by (auto split: if_splits)
    with "2.prems"(2) a HArr obtain ss where "str_all pf json h (insert a cycle) xs = Inr ss"
      by (auto split: sum.splits)
    from "2.IH"(1) [OF a HArr fresh "2.prems"(1) this]
    have ih: "\<forall>k b. Ref k \<in> set xs \<longrightarrow> (k, b) \<in> (edges h)\<^sup>* \<longrightarrow>
                b \<notin> insert a cycle \<and> (b, b) \<notin> (edges h)\<^sup>+" .
    show ?thesis
      using node_acyclic [OF fresh edge_member_arr [OF HArr] ih] by simp
  next
    case (HObj es)
    with po have nj: "\<not> has_toJSON es" and d: "distinct (map fst es)" by simp_all
    from "2.prems"(2) a HObj nj have fresh: "a \<notin> cycle" by (auto split: if_splits)
    with "2.prems"(2) a HObj nj obtain ss
      where "str_all pf json h (insert a cycle) (map (hobj_get es) (sort (map fst es))) = Inr ss"
      by (auto split: sum.splits)
    from "2.IH"(2) [OF a HObj nj fresh "2.prems"(1) this]
    have ih: "\<forall>k b. Ref k \<in> set (map (hobj_get es) (sort (map fst es))) \<longrightarrow> (k, b) \<in> (edges h)\<^sup>* \<longrightarrow>
                b \<notin> insert a cycle \<and> (b, b) \<notin> (edges h)\<^sup>+" .
    show ?thesis
      using node_acyclic [OF fresh edge_member_obj [OF HObj d] ih] by simp
  qed
next
  case (3 pf json h cycle)
  show ?case by simp
next
  case (4 pf json h cycle v vs)
  from "4.prems"(2) obtain s ss' where s: "str_ref pf json h cycle v = Inr s"
    and ss': "str_all pf json h cycle vs = Inr ss'"
    by (auto split: sum.splits)
  from "4.IH"(1) [OF "4.prems"(1) s] "4.IH"(2) [OF s "4.prems"(1) ss']
  show ?case by auto
qed

lemma cyclic_gives_cycle_error:
  assumes pg: "plain_heap h" and e: "entry < length h" and cy: "cyclic h entry"
  shows "stringify_object pf json h entry = Inl CycleFound"
proof (cases "str_ref pf json h {} (Ref entry)")
  case (Inl err)
  have "plain_member h (Ref entry)" using e by simp
  from str_error_is_cycle(1) [OF pg this Inl] have "err = CycleFound" .
  with Inl show ?thesis by (simp only: stringify_object_def)
next
  case (Inr s)
  from cy obtain a where "(entry, a) \<in> (edges h)\<^sup>*" "(a, a) \<in> (edges h)\<^sup>+"
    by (auto simp: cyclic_def)
  with str_result_acyclic(1) [OF pg Inr] show ?thesis by blast
qed

subsection \<open>The strings of equal documents and of cyclic documents\<close>

text \<open>
  A platform for a concrete run in which function 0 is \<^verbatim>\<open>function () { return this }\<close>:
  \<^verbatim>\<open>JSON.stringify\<close> of an object with that \<^verbatim>\<open>toJSON\<close> writes the object's own members in
  their order and leaves out the function.  Only the two objects of the run are given.
\<close>

definition returns_this_platform :: platform where
  "returns_this_platform =
     plain_platform
       \<lparr>call_function := (\<lambda>f this. Inr this),
        JSON_stringify := (\<lambda>v.
          if v = Obj [(''x'', Num 1), (''y'', Num 2), (''toJSON'', Fun 0)]
            then Inr ''{\"x\":1,\"y\":2}''
          else if v = Obj [(''y'', Num 2), (''x'', Num 1), (''toJSON'', Fun 0)]
            then Inr ''{\"y\":2,\"x\":1}''
          else Inl OutsideModel)\<rparr>"


lemma number_toString_1_2: "number_toString 1 = ''1''" "number_toString 2 = ''2''"
  by code_simp+

lemma ex_equal_documents:
  "plain (Obj [(''x'', Num 1), (''y'', Arr [Num 2])]) \<and> plain (Obj [(''y'', Arr [Num 2]), (''x'', Num 1)])
   \<and> isEqual plain_platform (Obj [(''x'', Num 1), (''y'', Arr [Num 2])])
        (Obj [(''y'', Arr [Num 2]), (''x'', Num 1)])"
  by (simp add: isEqual_def strict_equal_def getConstructor_def isFunction_def string_converter_def
      obj_get_def card_insert_if)

lemma ex_cyclic_graph:
  "plain_heap [HObj [(''self'', Ref 0)]] \<and> 0 < length [HObj [(''self'', Ref 0)]]
   \<and> cyclic [HObj [(''self'', Ref 0)]] 0"
proof -
  have "(0, 0) \<in> edges [HObj [(''self'', Ref 0)]]" by (simp add: edges_def)
  then have "(0, 0) \<in> (edges [HObj [(''self'', Ref 0)]])\<^sup>+" by (rule r_into_trancl)
  then have "cyclic [HObj [(''self'', Ref 0)]] 0" unfolding cyclic_def by blast
  then show ?thesis
    by (simp add: plain_heap_def has_toJSON_def hobj_get_def isFunction_def)
qed



end
